theory Spec2Isabelle
  imports Main
begin

section \<open>Data model (internal/db/models.go, schema of internal/db/db.go)\<close>

text \<open>
  The three relations of the SQLite schema. \<open>watched_accounts\<close> rows are the Go struct
  \<open>WatchedAccount\<close>; \<open>following\<close> rows are pairs (watched_account_id, followed_user_id);
  \<open>follow_events\<close> rows carry the columns of the INSERT in \<open>StoreFollowEvents\<close>.
  int64 identifiers are modelled as \<open>int\<close>: the program only compares them, and new ones
  are assigned by SQLite. Timestamps are \<open>nat\<close>.
\<close>

record WatchedAccount =
  ID :: int
  Username :: string
  UserID :: string

datatype EventType = EventTypeFollow | EventTypeUnfollow

record FollowEvent =
  ev_id :: int
  ev_watched_account_id :: int
  ev_user_id :: string
  ev_event_type :: EventType
  ev_detected_at :: nat

record Database =
  watched_accounts :: "WatchedAccount list"
  following :: "(int \<times> string) list"
  follow_events :: "FollowEvent list"

text \<open>
  Go errors. \<open>fmt.Errorf("ctx: %w", err)\<close> is \<open>Wrapped ''ctx'' err\<close>; the leaves are a
  failure reported by the SQL driver, by the HTTP round trip to the upstream API, or by a
  notification endpoint, and the two errors the UI creates itself.
\<close>

datatype error =
    SqlFailure
  | UpstreamFailure
  | SendFailure
  | Message string
  | Wrapped string error

section \<open>Go's map[string]bool used as a set\<close>

text \<open>
  The code only ever stores \<open>true\<close> in these maps, reads them with \<open>m[id]\<close> (false when
  the key is absent) and ranges over their keys. The model keeps the keys, each once;
  \<open>range\<close> visits them in the listed order (Go leaves the order unspecified, so no
  theorem below depends on it beyond the set of keys).
\<close>

type_synonym idmap = "string list"

definition map_get :: "idmap \<Rightarrow> string \<Rightarrow> bool" where
  "map_get m k = (k \<in> set m)"

definition map_put :: "idmap \<Rightarrow> string \<Rightarrow> idmap" where
  "map_put m k = (if k \<in> set m then m else m @ [k])"

section \<open>The SQL driver and its failures\<close>

text \<open>
  Every call into database/sql (Begin, Query, Prepare, Exec, Commit) may return an error.
  The schedule \<open>fs\<close> says which ones do: each call consumes the head of the list, and an
  exhausted schedule means no further failure. A transaction works on a copy of the
  tables; \<open>Commit\<close> installs the copy, and the deferred \<open>tx.Rollback()\<close> drops it on every
  error path.
\<close>

fun next_fault :: "bool list \<Rightarrow> bool \<times> bool list" where
  "next_fault [] = (False, [])"
| "next_fault (b # bs) = (b, bs)"

section \<open>Snapshot store (internal/db/db.go)\<close>

text \<open>New rowid of an INTEGER PRIMARY KEY table: one more than the largest in use.\<close>

definition new_rowid :: "int list \<Rightarrow> int" where
  "new_rowid ids = fold max ids 0 + 1"

definition AddWatchedAccount ::
  "bool list \<Rightarrow> Database \<Rightarrow> WatchedAccount \<Rightarrow> (error + WatchedAccount) \<times> bool list \<times> Database" where
  "AddWatchedAccount fs d account =
     (case next_fault fs of
        (True, fs1) \<Rightarrow> (Inl SqlFailure, fs1, d)
      | (False, fs1) \<Rightarrow>
          if Username account \<in> set (map Username (watched_accounts d))
          then (Inl SqlFailure, fs1, d)
          else let account' = account\<lparr>ID := new_rowid (map ID (watched_accounts d))\<rparr>
               in (Inr account', fs1, d\<lparr>watched_accounts := watched_accounts d @ [account']\<rparr>))"

definition GetWatchedAccounts ::
  "bool list \<Rightarrow> Database \<Rightarrow> (error + WatchedAccount list) \<times> bool list" where
  "GetWatchedAccounts fs d =
     (case next_fault fs of
        (True, fs1) \<Rightarrow> (Inl SqlFailure, fs1)
      | (False, fs1) \<Rightarrow> (Inr (watched_accounts d), fs1))"

definition RemoveWatchedAccount ::
  "bool list \<Rightarrow> Database \<Rightarrow> int \<Rightarrow> (error + unit) \<times> bool list \<times> Database" where
  "RemoveWatchedAccount fs d i =
     (case next_fault fs of
        (True, fs1) \<Rightarrow> (Inl SqlFailure, fs1, d)
      | (False, fs1) \<Rightarrow>
     (case next_fault fs1 of
        (True, fs2) \<Rightarrow> (Inl SqlFailure, fs2, d)
      | (False, fs2) \<Rightarrow>
     (case next_fault fs2 of
        (True, fs3) \<Rightarrow> (Inl SqlFailure, fs3, d)
      | (False, fs3) \<Rightarrow>
     (case next_fault fs3 of
        (True, fs4) \<Rightarrow> (Inl SqlFailure, fs4, d)
      | (False, fs4) \<Rightarrow>
          (Inr (), fs4,
           d\<lparr>following := filter (\<lambda>r. fst r \<noteq> i) (following d),
             watched_accounts := filter (\<lambda>a. ID a \<noteq> i) (watched_accounts d)\<rparr>)))))"

text \<open>\<open>GetCurrentFollowings\<close>: one query; the loop over the rows fills the map.\<close>

definition GetCurrentFollowings ::
  "bool list \<Rightarrow> Database \<Rightarrow> int \<Rightarrow> (error + idmap) \<times> bool list" where
  "GetCurrentFollowings fs d watchedAccountID =
     (case next_fault fs of
        (True, fs1) \<Rightarrow> (Inl SqlFailure, fs1)
      | (False, fs1) \<Rightarrow>
          (Inr (fold (\<lambda>userID followings. map_put followings userID)
                  (map snd (filter (\<lambda>r. fst r = watchedAccountID) (following d))) []),
           fs1))"

text \<open>The loop "Find and delete unfollows" of \<open>StoreFollowings\<close>, on the transaction's copy.\<close>

fun delete_unfollows ::
  "int \<Rightarrow> idmap \<Rightarrow> string list \<Rightarrow> bool list \<Rightarrow> (int \<times> string) list
     \<Rightarrow> (error + (int \<times> string) list) \<times> bool list" where
  "delete_unfollows acc newFollowingsMap [] fs rows = (Inr rows, fs)"
| "delete_unfollows acc newFollowingsMap (i # is) fs rows =
     (if \<not> map_get newFollowingsMap i then
        (case next_fault fs of
           (True, fs1) \<Rightarrow> (Inl (Wrapped (''deleting unfollow '' @ i) SqlFailure), fs1)
         | (False, fs1) \<Rightarrow>
             delete_unfollows acc newFollowingsMap is fs1 (filter (\<lambda>r. r \<noteq> (acc, i)) rows))
      else delete_unfollows acc newFollowingsMap is fs rows)"

text \<open>The loop "Insert each new following relationship" (INSERT OR IGNORE).\<close>

fun insert_follows ::
  "int \<Rightarrow> idmap \<Rightarrow> string list \<Rightarrow> bool list \<Rightarrow> (int \<times> string) list
     \<Rightarrow> (error + (int \<times> string) list) \<times> bool list" where
  "insert_follows acc currentFollowings [] fs rows = (Inr rows, fs)"
| "insert_follows acc currentFollowings (i # is) fs rows =
     (if \<not> map_get currentFollowings i then
        (case next_fault fs of
           (True, fs1) \<Rightarrow> (Inl (Wrapped (''inserting new follow '' @ i) SqlFailure), fs1)
         | (False, fs1) \<Rightarrow>
             insert_follows acc currentFollowings is fs1
               (if (acc, i) \<in> set rows then rows else rows @ [(acc, i)]))
      else insert_follows acc currentFollowings is fs rows)"

definition StoreFollowings ::
  "bool list \<Rightarrow> Database \<Rightarrow> int \<Rightarrow> string list \<Rightarrow> (error + unit) \<times> bool list \<times> Database" where
  "StoreFollowings fs d watchedAccountID followingIDs =
     (case next_fault fs of
        (True, fs1) \<Rightarrow> (Inl (Wrapped ''beginning transaction'' SqlFailure), fs1, d)
      | (False, fs1) \<Rightarrow>
     (case GetCurrentFollowings fs1 d watchedAccountID of
        (Inl e, fs2) \<Rightarrow> (Inl (Wrapped ''getting current followings'' e), fs2, d)
      | (Inr currentFollowings, fs2) \<Rightarrow>
     (let newFollowingsMap = fold (\<lambda>i m. map_put m i) followingIDs [] in
     (case delete_unfollows watchedAccountID newFollowingsMap currentFollowings fs2 (following d) of
        (Inl e, fs3) \<Rightarrow> (Inl e, fs3, d)
      | (Inr rows1, fs3) \<Rightarrow>
     (case next_fault fs3 of
        (True, fs4) \<Rightarrow> (Inl (Wrapped ''preparing statement'' SqlFailure), fs4, d)
      | (False, fs4) \<Rightarrow>
     (case insert_follows watchedAccountID currentFollowings followingIDs fs4 rows1 of
        (Inl e, fs5) \<Rightarrow> (Inl e, fs5, d)
      | (Inr rows2, fs5) \<Rightarrow>
     (case next_fault fs5 of
        (True, fs6) \<Rightarrow> (Inl (Wrapped ''committing transaction'' SqlFailure), fs6, d)
      | (False, fs6) \<Rightarrow> (Inr (), fs6, d\<lparr>following := rows2\<rparr>))))))))"

text \<open>The two insert loops of \<open>StoreFollowEvents\<close> share this shape.\<close>

fun insert_events ::
  "int \<Rightarrow> EventType \<Rightarrow> string \<Rightarrow> nat \<Rightarrow> string list \<Rightarrow> bool list \<Rightarrow> FollowEvent list
     \<Rightarrow> (error + FollowEvent list) \<times> bool list" where
  "insert_events acc kind ctx now [] fs evs = (Inr evs, fs)"
| "insert_events acc kind ctx now (userID # rest) fs evs =
     (case next_fault fs of
        (True, fs1) \<Rightarrow> (Inl (Wrapped (ctx @ userID) SqlFailure), fs1)
      | (False, fs1) \<Rightarrow>
          insert_events acc kind ctx now rest fs1
            (evs @ [\<lparr>ev_id = new_rowid (map ev_id evs), ev_watched_account_id = acc,
                     ev_user_id = userID, ev_event_type = kind, ev_detected_at = now\<rparr>]))"

definition StoreFollowEvents ::
  "bool list \<Rightarrow> Database \<Rightarrow> int \<Rightarrow> string list \<Rightarrow> string list \<Rightarrow> nat
     \<Rightarrow> (error + unit) \<times> bool list \<times> Database" where
  "StoreFollowEvents fs d watchedAccountID follows unfollows now =
     (case next_fault fs of
        (True, fs1) \<Rightarrow> (Inl (Wrapped ''beginning transaction'' SqlFailure), fs1, d)
      | (False, fs1) \<Rightarrow>
     (case next_fault fs1 of
        (True, fs2) \<Rightarrow> (Inl (Wrapped ''preparing statement'' SqlFailure), fs2, d)
      | (False, fs2) \<Rightarrow>
     (case insert_events watchedAccountID EventTypeFollow ''inserting follow event for '' now
             follows fs2 (follow_events d) of
        (Inl e, fs3) \<Rightarrow> (Inl e, fs3, d)
      | (Inr evs1, fs3) \<Rightarrow>
     (case insert_events watchedAccountID EventTypeUnfollow ''inserting unfollow event for '' now
             unfollows fs3 evs1 of
        (Inl e, fs4) \<Rightarrow> (Inl e, fs4, d)
      | (Inr evs2, fs4) \<Rightarrow>
     (case next_fault fs4 of
        (True, fs5) \<Rightarrow> (Inl (Wrapped ''committing transaction'' SqlFailure), fs5, d)
      | (False, fs5) \<Rightarrow> (Inr (), fs5, d\<lparr>follow_events := evs2\<rparr>))))))"

section \<open>Change detection\<close>

text \<open>
  The same two loops appear in \<open>ProcessFollowingChanges\<close> (db.go) and in \<open>CheckAccounts\<close>
  (model.go): "Find new follows" fills \<open>newFollowingsMap\<close> and collects the fetched IDs that
  the stored map lacks; "Find unfollows" ranges over the stored map.
\<close>

fun find_new_follows ::
  "idmap \<Rightarrow> string list \<Rightarrow> idmap \<Rightarrow> string list \<Rightarrow> idmap \<times> string list" where
  "find_new_follows currentFollowings [] newFollowingsMap newFollows =
     (newFollowingsMap, newFollows)"
| "find_new_follows currentFollowings (i # is) newFollowingsMap newFollows =
     find_new_follows currentFollowings is (map_put newFollowingsMap i)
       (if \<not> map_get currentFollowings i then newFollows @ [i] else newFollows)"

fun find_unfollows :: "idmap \<Rightarrow> string list \<Rightarrow> string list \<Rightarrow> string list" where
  "find_unfollows newFollowingsMap [] unfollows = unfollows"
| "find_unfollows newFollowingsMap (i # is) unfollows =
     find_unfollows newFollowingsMap is
       (if \<not> map_get newFollowingsMap i then unfollows @ [i] else unfollows)"

definition detect_changes :: "idmap \<Rightarrow> string list \<Rightarrow> string list \<times> string list" where
  "detect_changes currentFollowings newFollowingIDs =
     (case find_new_follows currentFollowings newFollowingIDs [] [] of
        (newFollowingsMap, newFollows) \<Rightarrow>
          (newFollows, find_unfollows newFollowingsMap currentFollowings []))"

definition ProcessFollowingChanges ::
  "bool list \<Rightarrow> Database \<Rightarrow> WatchedAccount \<Rightarrow> string list \<Rightarrow> nat
     \<Rightarrow> (error + unit) \<times> bool list \<times> Database" where
  "ProcessFollowingChanges fs d account newFollowingIDs now =
     (case GetCurrentFollowings fs d (ID account) of
        (Inl e, fs1) \<Rightarrow> (Inl (Wrapped ''getting current followings'' e), fs1, d)
      | (Inr currentFollowings, fs1) \<Rightarrow>
     (case detect_changes currentFollowings newFollowingIDs of
        (newFollows, unfollows) \<Rightarrow>
          if length newFollows > 0 \<or> length unfollows > 0 then
            (case StoreFollowEvents fs1 d (ID account) newFollows unfollows now of
               (Inl e, fs2, d1) \<Rightarrow> (Inl (Wrapped ''storing follow events'' e), fs2, d1)
             | (Inr u, fs2, d1) \<Rightarrow>
            (case StoreFollowings fs2 d1 (ID account) newFollowingIDs of
               (Inl e, fs3, d2) \<Rightarrow> (Inl (Wrapped ''updating followings'' e), fs3, d2)
             | (Inr u, fs3, d2) \<Rightarrow> (Inr (), fs3, d2)))
          else (Inr (), fs1, d)))"

section \<open>Upstream client (internal/api/client.go)\<close>

text \<open>
  The fields of the API's JSON answers that the program reads. The upstream service is a
  parameter: what \<open>doRequest\<close> yields for each of the three endpoints, an error standing for
  a transport failure, a status other than 200 or an undecodable body. The request for
  following IDs carries the cursor parameter only when the client's \<open>nextCursor\<close> is not "0".
\<close>

record UserResponse =
  RestID :: string
  ScreenName :: string
  FriendsCount :: int

record FollowingIDsResponse =
  IDs :: "string list"
  NextCursor :: int
  NextCursorStr :: string

record UserByIDResponse =
  byid_ScreenName :: string
  byid_FollowersCount :: int

record Upstream =
  by_username :: "string \<Rightarrow> error + UserResponse"
  following_ids :: "string \<Rightarrow> string option \<Rightarrow> error + FollowingIDsResponse"
  by_id :: "string \<Rightarrow> error + UserByIDResponse"

definition GetUser :: "Upstream \<Rightarrow> string \<Rightarrow> error + UserResponse" where
  "GetUser api username = by_username api username"

definition GetUserByID :: "Upstream \<Rightarrow> string \<Rightarrow> error + UserByIDResponse" where
  "GetUserByID api userID = by_id api userID"

text \<open>
  The pagination loop \<open>for { ... }\<close> of \<open>GetFollowingIDs\<close>. It ends only when a page reports
  \<open>NextCursor = 0\<close> or a request fails, so it is a partial function: \<open>None\<close> is a call that
  never returns.
\<close>

partial_function (option) fetch_pages ::
  "(string option \<Rightarrow> error + FollowingIDsResponse) \<Rightarrow> string list \<Rightarrow> string
     \<Rightarrow> (error + string list) option" where
  "fetch_pages request allIDs nextCursor =
     (case request (if nextCursor \<noteq> ''0'' then Some nextCursor else None) of
        Inl e \<Rightarrow> Some (Inl (Wrapped ''sending request'' e))
      | Inr response \<Rightarrow>
          if NextCursor response = 0 then Some (Inr (allIDs @ IDs response))
          else fetch_pages request (allIDs @ IDs response) (NextCursorStr response))"

text \<open>The returned struct has only its \<open>IDs\<close> field set; the model returns that list.\<close>

definition GetFollowingIDs :: "Upstream \<Rightarrow> string \<Rightarrow> (error + string list) option" where
  "GetFollowingIDs api userID = fetch_pages (following_ids api userID) [] ''0''"

text \<open>
  The upstream serves the pages \<open>ps\<close> from cursor \<open>c\<close>: the request for \<open>c\<close> answers with the
  first page, every page but the last reports a non-zero \<open>NextCursor\<close> and its
  \<open>NextCursorStr\<close> leads to the next page, and the last page reports \<open>NextCursor = 0\<close>.
\<close>

fun serves ::
  "(string option \<Rightarrow> error + FollowingIDsResponse) \<Rightarrow> string \<Rightarrow> FollowingIDsResponse list
     \<Rightarrow> bool" where
  "serves request c [] = False"
| "serves request c [p] =
     (request (if c \<noteq> ''0'' then Some c else None) = Inr p \<and> NextCursor p = 0)"
| "serves request c (p # q # ps) =
     (request (if c \<noteq> ''0'' then Some c else None) = Inr p \<and> NextCursor p \<noteq> 0 \<and>
      serves request (NextCursorStr p) (q # ps))"

section \<open>Notification dispatch (internal/webhook)\<close>

text \<open>Decimal rendering of \<open>%d\<close>.\<close>

definition digit_char :: "nat \<Rightarrow> char" where
  "digit_char n = char_of (48 + n)"

function show_nat :: "nat \<Rightarrow> string" where
  "show_nat n = (if n < 10 then [digit_char n] else show_nat (n div 10) @ [digit_char (n mod 10)])"
  by pat_completeness auto
termination
  by (relation "measure id") auto

declare show_nat.simps [simp del]

definition show_int :: "int \<Rightarrow> string" where
  "show_int i = (if i < 0 then ''-'' @ show_nat (nat (- i)) else show_nat (nat i))"

record webhookEmbedField =
  field_Name :: string
  field_Value :: string
  field_Inline :: bool

record webhookEmbed =
  Title :: string
  Description :: string
  Color :: nat
  Fields :: "webhookEmbedField list"
  Timestamp :: string
  Footer :: string

record webhookPayload =
  payload_Username :: string
  Embeds :: "webhookEmbed list"

text \<open>
  A message handed to \<open>http.Client.Post\<close>: the Discord payload, or Telegram's chat id and
  text. The outside world answers each post with a transport error or a status code.
\<close>

datatype body = DiscordBody webhookPayload | TelegramBody string string

type_synonym post = "string \<times> body"

record World =
  upstream :: Upstream
  http_post :: "string \<Rightarrow> body \<Rightarrow> error + nat"
  clock :: nat
  stamp :: string

record DiscordWebhook =
  URL :: string

record TelegramWebhook =
  botToken :: string
  chatID :: string

text \<open>
  Each channel function returns its error (or nil) together with the posts it made.
\<close>

definition send :: "World \<Rightarrow> DiscordWebhook \<Rightarrow> webhookPayload \<Rightarrow> (error + unit) \<times> post list" where
  "send w d payload =
     (case http_post w (URL d) (DiscordBody payload) of
        Inl e \<Rightarrow> (Inl (Wrapped ''sending webhook'' e), [(URL d, DiscordBody payload)])
      | Inr status \<Rightarrow>
          if status \<noteq> 200 \<and> status \<noteq> 204
          then (Inl (Message (''webhook error: status='' @ show_nat status)),
                [(URL d, DiscordBody payload)])
          else (Inr (), [(URL d, DiscordBody payload)]))"

text \<open>The field loops of the Discord notifications: entries with index below 25 only.\<close>

fun discord_fields :: "Upstream \<Rightarrow> string \<Rightarrow> nat \<Rightarrow> string list \<Rightarrow> webhookEmbedField list" where
  "discord_fields api label i [] = []"
| "discord_fields api label i (userID # rest) =
     (if i < 25 then
        [(case GetUserByID api userID of
            Inl e \<Rightarrow>
              \<lparr>field_Name = label @ show_nat (i + 1),
               field_Value = userID @ '' '' @ show_int 0 @ '' followers'',
               field_Inline = True\<rparr>
          | Inr userDetails \<Rightarrow>
              \<lparr>field_Name = label @ show_nat (i + 1),
               field_Value = (''@'' @ byid_ScreenName userDetails) @ '' ''
                   @ show_int (byid_FollowersCount userDetails) @ '' followers'',
               field_Inline = True\<rparr>)]
      else [])
     @ discord_fields api label (i + 1) rest"

definition follows_payload :: "World \<Rightarrow> WatchedAccount \<Rightarrow> string list \<Rightarrow> webhookPayload" where
  "follows_payload w account follows =
     \<lparr>payload_Username = ''X Follow Tracker'',
      Embeds = [\<lparr>Title = ''New Follows Detected for @'' @ Username account,
                 Description = ''Started following '' @ show_nat (length follows)
                     @ '' new accounts'',
                 Color = 65280,
                 Fields = discord_fields (upstream w) ''New Follow '' 0 follows,
                 Timestamp = stamp w,
                 Footer = ''X Track''\<rparr>]\<rparr>"

definition unfollows_payload :: "World \<Rightarrow> WatchedAccount \<Rightarrow> string list \<Rightarrow> webhookPayload" where
  "unfollows_payload w account unfollows =
     \<lparr>payload_Username = ''X Follow Tracker'',
      Embeds = [\<lparr>Title = ''Unfollows Detected for @'' @ Username account,
                 Description = ''Unfollowed '' @ show_nat (length unfollows) @ '' accounts'',
                 Color = 16711680,
                 Fields = discord_fields (upstream w) ''Unfollow '' 0 unfollows,
                 Timestamp = stamp w,
                 Footer = ''X Track''\<rparr>]\<rparr>"

definition Discord_NotifyNewFollows ::
  "World \<Rightarrow> DiscordWebhook \<Rightarrow> WatchedAccount \<Rightarrow> string list \<Rightarrow> (error + unit) \<times> post list" where
  "Discord_NotifyNewFollows w d account follows =
     (if URL d = [] then (Inr (), [])
      else send w d (follows_payload w account follows))"

definition Discord_NotifyUnfollows ::
  "World \<Rightarrow> DiscordWebhook \<Rightarrow> WatchedAccount \<Rightarrow> string list \<Rightarrow> (error + unit) \<times> post list" where
  "Discord_NotifyUnfollows w d account unfollows =
     (if URL d = [] then (Inr (), [])
      else send w d (unfollows_payload w account unfollows))"

definition telegram_url :: "TelegramWebhook \<Rightarrow> string" where
  "telegram_url t = ''https://api.telegram.org/bot'' @ botToken t @ ''/sendMessage''"

definition sendMessage :: "World \<Rightarrow> TelegramWebhook \<Rightarrow> string \<Rightarrow> (error + unit) \<times> post list" where
  "sendMessage w t text =
     (if botToken t = [] \<or> chatID t = [] then (Inr (), [])
      else (case http_post w (telegram_url t) (TelegramBody (chatID t) text) of
              Inl e \<Rightarrow>
                (Inl (Wrapped ''sending telegram message'' e),
                 [(telegram_url t, TelegramBody (chatID t) text)])
            | Inr status \<Rightarrow>
                if status \<noteq> 200
                then (Inl (Message (''telegram API error: status='' @ show_nat status)),
                      [(telegram_url t, TelegramBody (chatID t) text)])
                else (Inr (), [(telegram_url t, TelegramBody (chatID t) text)])))"

text \<open>The line loops of the Telegram notifications: they break at index 25.\<close>

fun telegram_lines :: "Upstream \<Rightarrow> nat \<Rightarrow> string list \<Rightarrow> string" where
  "telegram_lines api i [] = []"
| "telegram_lines api i (userID # rest) =
     (if i \<ge> 25 then []
      else (case GetUserByID api userID of
              Inl e \<Rightarrow> show_nat (i + 1) @ ''. ID: '' @ userID @ [CHR 0x0A]
            | Inr userDetails \<Rightarrow>
                show_nat (i + 1) @ ''. @'' @ byid_ScreenName userDetails @ '' (''
                  @ show_int (byid_FollowersCount userDetails) @ '' followers)'' @ [CHR 0x0A])
           @ telegram_lines api (i + 1) rest)"

definition follows_text :: "World \<Rightarrow> WatchedAccount \<Rightarrow> string list \<Rightarrow> string" where
  "follows_text w account follows =
     ''<b>New Follows Detected for @'' @ Username account @ ''</b>'' @ [CHR 0x0A]
     @ ''Started following '' @ show_nat (length follows) @ '' new accounts''
     @ [CHR 0x0A, CHR 0x0A]
     @ telegram_lines (upstream w) 0 follows"

definition unfollows_text :: "World \<Rightarrow> WatchedAccount \<Rightarrow> string list \<Rightarrow> string" where
  "unfollows_text w account unfollows =
     ''<b>Unfollows Detected for @'' @ Username account @ ''</b>'' @ [CHR 0x0A]
     @ ''Unfollowed '' @ show_nat (length unfollows) @ '' accounts''
     @ [CHR 0x0A, CHR 0x0A]
     @ telegram_lines (upstream w) 0 unfollows"

definition Telegram_NotifyNewFollows ::
  "World \<Rightarrow> TelegramWebhook \<Rightarrow> WatchedAccount \<Rightarrow> string list \<Rightarrow> (error + unit) \<times> post list" where
  "Telegram_NotifyNewFollows w t account follows =
     sendMessage w t (follows_text w account follows)"

definition Telegram_NotifyUnfollows ::
  "World \<Rightarrow> TelegramWebhook \<Rightarrow> WatchedAccount \<Rightarrow> string list \<Rightarrow> (error + unit) \<times> post list" where
  "Telegram_NotifyUnfollows w t account unfollows =
     sendMessage w t (unfollows_text w account unfollows)"

record NotificationManager =
  discord :: "DiscordWebhook option"
  telegram :: "TelegramWebhook option"
  enableDiscord :: bool
  enableTelegram :: bool

definition NewNotificationManager ::
  "string \<Rightarrow> string \<Rightarrow> string \<Rightarrow> bool \<Rightarrow> bool \<Rightarrow> NotificationManager" where
  "NewNotificationManager discordURL telegramToken telegramChatID enableD enableT =
     \<lparr>discord = (if enableD \<and> discordURL \<noteq> [] then Some \<lparr>URL = discordURL\<rparr> else None),
      telegram = (if enableT \<and> telegramToken \<noteq> [] \<and> telegramChatID \<noteq> []
                  then Some \<lparr>botToken = telegramToken, chatID = telegramChatID\<rparr> else None),
      enableDiscord = enableD,
      enableTelegram = enableT\<rparr>"

text \<open>
  The manager's methods have no result: what is left of a channel's error is a log line.
  \<open>on_channel\<close> is one of their two \<open>if\<close> blocks; it yields the posts the channel made and
  the errors logged for it.
\<close>

definition on_channel ::
  "bool \<Rightarrow> 'c option \<Rightarrow> ('c \<Rightarrow> (error + unit) \<times> post list) \<Rightarrow> post list \<times> error list" where
  "on_channel enabled channel notify =
     (if enabled \<and> channel \<noteq> None then
        (case notify (the channel) of
           (Inl err, posts) \<Rightarrow> (posts, [err])
         | (Inr u, posts) \<Rightarrow> (posts, []))
      else ([], []))"

definition NotifyNewFollows ::
  "World \<Rightarrow> NotificationManager \<Rightarrow> WatchedAccount \<Rightarrow> string list \<Rightarrow> post list \<times> error list" where
  "NotifyNewFollows w m account follows =
     (case on_channel (enableDiscord m) (discord m)
             (\<lambda>d. Discord_NotifyNewFollows w d account follows) of
        (posts1, errs1) \<Rightarrow>
     (case on_channel (enableTelegram m) (telegram m)
             (\<lambda>t. Telegram_NotifyNewFollows w t account follows) of
        (posts2, errs2) \<Rightarrow> (posts1 @ posts2, errs1 @ errs2)))"

definition NotifyUnfollows ::
  "World \<Rightarrow> NotificationManager \<Rightarrow> WatchedAccount \<Rightarrow> string list \<Rightarrow> post list \<times> error list" where
  "NotifyUnfollows w m account unfollows =
     (case on_channel (enableDiscord m) (discord m)
             (\<lambda>d. Discord_NotifyUnfollows w d account unfollows) of
        (posts1, errs1) \<Rightarrow>
     (case on_channel (enableTelegram m) (telegram m)
             (\<lambda>t. Telegram_NotifyUnfollows w t account unfollows) of
        (posts2, errs2) \<Rightarrow> (posts1 @ posts2, errs1 @ errs2)))"

section \<open>Reconciliation and account management (internal/ui/model.go)\<close>

datatype Mode = ModeNormal | ModeAddAccount | ModeListAccounts | ModeRemoveAccount

record Config =
  EnableFollowNotifications :: bool
  EnableUnfollowNotifications :: bool

text \<open>
  The fields of the Go \<open>Model\<close> that the modelled functions touch, together with what they
  leave behind outside the process: the rest of the driver's failure schedule, the posts made
  to notification endpoints and the errors that were only logged. The API client is the
  \<open>upstream\<close> of the \<open>World\<close>. Rendering state (spinners, text input) is left out.
\<close>

record Model =
  mode :: Mode
  db :: Database
  notifications :: "NotificationManager option"
  config :: Config
  accounts :: "WatchedAccount list"
  sql_faults :: "bool list"
  posted :: "post list"
  logged :: "error list"

definition TrimPrefix :: "string \<Rightarrow> string \<Rightarrow> string" where
  "TrimPrefix s prefix =
     (if take (length prefix) s = prefix then drop (length prefix) s else s)"

definition loadAccounts :: "Model \<Rightarrow> error option \<times> Model" where
  "loadAccounts m =
     (case GetWatchedAccounts (sql_faults m) (db m) of
        (Inl err, fs1) \<Rightarrow> (Some err, m\<lparr>sql_faults := fs1\<rparr>)
      | (Inr accs, fs1) \<Rightarrow> (None, m\<lparr>sql_faults := fs1, accounts := accs\<rparr>))"

text \<open>
  \<open>handleAddAccount\<close>: the message returned by the command (an error, or nil after the
  accounts were reloaded) and the model afterwards; \<open>None\<close> when the initial fetch never
  returns.
\<close>

definition handleAddAccount :: "World \<Rightarrow> string \<Rightarrow> Model \<Rightarrow> (error option \<times> Model) option" where
  "handleAddAccount w username0 m =
     (let username = TrimPrefix username0 ''@'' in
      case GetUser (upstream w) username of
        Inl err \<Rightarrow> Some (Some err, m)
      | Inr user \<Rightarrow>
     (case AddWatchedAccount (sql_faults m) (db m)
             \<lparr>ID = 0, Username = ScreenName user, UserID = RestID user\<rparr> of
        (Inl err, fs1, d1) \<Rightarrow> Some (Some err, m\<lparr>sql_faults := fs1, db := d1\<rparr>)
      | (Inr account, fs1, d1) \<Rightarrow>
     (case GetFollowingIDs (upstream w) (UserID account) of
        None \<Rightarrow> None
      | Some (Inl err) \<Rightarrow>
          Some (Some (Wrapped ''getting initial followings'' err),
                m\<lparr>sql_faults := fs1, db := d1\<rparr>)
      | Some (Inr followings) \<Rightarrow>
     (case StoreFollowings fs1 d1 (ID account) followings of
        (Inl err, fs2, d2) \<Rightarrow>
          Some (Some (Wrapped ''storing initial followings'' err),
                m\<lparr>sql_faults := fs2, db := d2\<rparr>)
      | (Inr u, fs2, d2) \<Rightarrow>
          Some (loadAccounts (m\<lparr>sql_faults := fs2, db := d2, mode := ModeNormal\<rparr>))))))"

text \<open>The search loop of \<open>handleRemoveByUsername\<close> over the cached accounts.\<close>

fun remove_first_match :: "string \<Rightarrow> WatchedAccount list \<Rightarrow> Model \<Rightarrow> error option \<times> Model" where
  "remove_first_match username [] m =
     (Some (Message (''account @'' @ username @ '' not found'')), m)"
| "remove_first_match username (account # rest) m =
     (if Username account = username then
        (case RemoveWatchedAccount (sql_faults m) (db m) (ID account) of
           (Inl err, fs1, d1) \<Rightarrow> (Some err, m\<lparr>sql_faults := fs1, db := d1\<rparr>)
         | (Inr u, fs1, d1) \<Rightarrow>
             loadAccounts (m\<lparr>sql_faults := fs1, db := d1, mode := ModeNormal\<rparr>))
      else remove_first_match username rest m)"

definition handleRemoveByUsername :: "string \<Rightarrow> Model \<Rightarrow> error option \<times> Model" where
  "handleRemoveByUsername username0 m =
     (let username = TrimPrefix username0 ''@'' in
      if username = [] then (Some (Message ''please enter a username''), m)
      else remove_first_match username (accounts m) m)"

text \<open>
  The notification block at the end of a successful update in \<open>CheckAccounts\<close>: nothing
  without a manager; each direction gated by its flag and by a non-empty list.
\<close>

definition dispatch ::
  "World \<Rightarrow> WatchedAccount \<Rightarrow> string list \<Rightarrow> string list \<Rightarrow> Model \<Rightarrow> Model" where
  "dispatch w account newFollows unfollows m =
     (case notifications m of
        None \<Rightarrow> m
      | Some nm \<Rightarrow>
          (let m1 = (if EnableFollowNotifications (config m) \<and> length newFollows > 0
                     then (case NotifyNewFollows w nm account newFollows of
                             (posts, errs) \<Rightarrow>
                               m\<lparr>posted := posted m @ posts, logged := logged m @ errs\<rparr>)
                     else m)
           in if EnableUnfollowNotifications (config m) \<and> length unfollows > 0
              then (case NotifyUnfollows w nm account unfollows of
                      (posts, errs) \<Rightarrow>
                        m1\<lparr>posted := posted m1 @ posts, logged := logged m1 @ errs\<rparr>)
              else m1))"

text \<open>
  The body of the loop \<open>for _, account := range accounts\<close> of \<open>CheckAccounts\<close>. Every error is
  logged and followed by \<open>continue\<close>, so the body always hands a model to the next
  iteration, unless the fetch never returns.
\<close>

definition check_account :: "World \<Rightarrow> WatchedAccount \<Rightarrow> Model \<Rightarrow> Model option" where
  "check_account w account m =
     (case GetFollowingIDs (upstream w) (UserID account) of
        None \<Rightarrow> None
      | Some (Inl err) \<Rightarrow> Some (m\<lparr>logged := logged m @ [err]\<rparr>)
      | Some (Inr followings) \<Rightarrow>
     (case GetCurrentFollowings (sql_faults m) (db m) (ID account) of
        (Inl err, fs1) \<Rightarrow> Some (m\<lparr>sql_faults := fs1, logged := logged m @ [err]\<rparr>)
      | (Inr currentFollowings, fs1) \<Rightarrow>
     (case detect_changes currentFollowings followings of
        (newFollows, unfollows) \<Rightarrow>
          if length newFollows > 0 \<or> length unfollows > 0 then
            (case StoreFollowEvents fs1 (db m) (ID account) newFollows unfollows (clock w) of
               (Inl err, fs2, d1) \<Rightarrow>
                 Some (m\<lparr>sql_faults := fs2, db := d1, logged := logged m @ [err]\<rparr>)
             | (Inr u, fs2, d1) \<Rightarrow>
            (case StoreFollowings fs2 d1 (ID account) followings of
               (Inl err, fs3, d2) \<Rightarrow>
                 Some (m\<lparr>sql_faults := fs3, db := d2, logged := logged m @ [err]\<rparr>)
             | (Inr u, fs3, d2) \<Rightarrow>
                 Some (dispatch w account newFollows unfollows
                         (m\<lparr>sql_faults := fs3, db := d2\<rparr>))))
          else Some (m\<lparr>sql_faults := fs1\<rparr>))))"

fun check_loop :: "World \<Rightarrow> WatchedAccount list \<Rightarrow> Model \<Rightarrow> Model option" where
  "check_loop w [] m = Some m"
| "check_loop w (account # rest) m =
     (case check_account w account m of
        None \<Rightarrow> None
      | Some m1 \<Rightarrow> check_loop w rest m1)"

definition CheckAccounts :: "World \<Rightarrow> Model \<Rightarrow> Model option" where
  "CheckAccounts w m =
     (case GetWatchedAccounts (sql_faults m) (db m) of
        (Inl err, fs1) \<Rightarrow> Some (m\<lparr>sql_faults := fs1, logged := logged m @ [err]\<rparr>)
      | (Inr accs, fs1) \<Rightarrow> check_loop w accs (m\<lparr>sql_faults := fs1\<rparr>))"

section \<open>Facts about the model\<close>

subsection \<open>The snapshot table\<close>

text \<open>
  A successful \<open>StoreFollowings\<close> went through its four stages; the delete loop filters
  the rows, the insert loop only adds rows of the account. \<open>P\<close> stands for any set of rows
  that holds none of the account's.
\<close>

lemma set_fold_map_put: "set (fold (\<lambda>i m. map_put m i) ks m) = set m \<union> set ks"
  by (induction ks arbitrary: m) (auto simp: map_put_def)

lemma distinct_fold_map_put: "distinct m \<Longrightarrow> distinct (fold (\<lambda>i m. map_put m i) ks m)"
  by (induction ks arbitrary: m) (auto simp: map_put_def)


lemma GetCurrentFollowings_ok:
  "GetCurrentFollowings fs d acc = (Inr cur, fs') \<Longrightarrow>
     set cur = {i. (acc, i) \<in> set (following d)} \<and> distinct cur"
  by (force simp: GetCurrentFollowings_def set_fold_map_put distinct_fold_map_put
           split: prod.splits bool.splits)

lemma GetCurrentFollowings_no_fault:
  "GetCurrentFollowings (False # fs) d acc =
     (Inr (fold (\<lambda>userID followings. map_put followings userID)
             (map snd (filter (\<lambda>r. fst r = acc) (following d))) []), fs)"
  "GetCurrentFollowings [] d acc =
     (Inr (fold (\<lambda>userID followings. map_put followings userID)
             (map snd (filter (\<lambda>r. fst r = acc) (following d))) []), [])"
  by (simp_all add: GetCurrentFollowings_def)

lemma delete_unfollows_ok:
  "delete_unfollows acc nm is fs rows = (Inr rows', fs') \<Longrightarrow>
     rows' = filter (\<lambda>r. \<not> (fst r = acc \<and> snd r \<in> set is \<and> snd r \<notin> set nm)) rows"
proof (induction "is" arbitrary: fs rows)
  case Nil
  then show ?case by simp
next
  case (Cons i "is")
  show ?case
  proof (cases "map_get nm i")
    case True
    with Cons.prems have "delete_unfollows acc nm is fs rows = (Inr rows', fs')" by simp
    from Cons.IH[OF this] True show ?thesis
      by (auto simp: map_get_def intro!: filter_cong)
  next
    case False
    with Cons.prems obtain fs1 where
      "delete_unfollows acc nm is fs1 (filter (\<lambda>r. r \<noteq> (acc, i)) rows) = (Inr rows', fs')"
      by (auto split: prod.splits bool.splits)
    from Cons.IH[OF this] False show ?thesis
      by (auto simp: map_get_def intro!: filter_cong)
  qed
qed

lemma insert_follows_ok:
  "insert_follows acc cur is fs rows = (Inr rows', fs') \<Longrightarrow>
     set rows' = set rows \<union> {(acc, i) | i. i \<in> set is \<and> i \<notin> set cur}"
proof (induction "is" arbitrary: fs rows)
  case Nil
  then show ?case by simp
next
  case (Cons i "is")
  show ?case
  proof (cases "map_get cur i")
    case True
    with Cons.prems have "insert_follows acc cur is fs rows = (Inr rows', fs')" by simp
    from Cons.IH[OF this] True show ?thesis
      by (auto simp: map_get_def)
  next
    case False
    with Cons.prems obtain fs1 where
      "insert_follows acc cur is fs1 (if (acc, i) \<in> set rows then rows else rows @ [(acc, i)])
         = (Inr rows', fs')"
      by (auto split: prod.splits bool.splits)
    from Cons.IH[OF this] False show ?thesis
      by (auto simp: map_get_def split: if_splits)
  qed
qed

lemma insert_follows_frame:
  "insert_follows acc cur is fs rows = (Inr rows', fs') \<Longrightarrow> (\<And>i. \<not> P (acc, i)) \<Longrightarrow>
     filter P rows' = filter P rows"
proof (induction "is" arbitrary: fs rows)
  case Nil
  then show ?case by simp
next
  case (Cons i "is")
  show ?case
  proof (cases "map_get cur i")
    case True
    with Cons.prems have "insert_follows acc cur is fs rows = (Inr rows', fs')" by simp
    from Cons.IH[OF this Cons.prems(2)] show ?thesis .
  next
    case False
    with Cons.prems obtain fs1 where
      "insert_follows acc cur is fs1 (if (acc, i) \<in> set rows then rows else rows @ [(acc, i)])
         = (Inr rows', fs')"
      by (auto split: prod.splits bool.splits)
    from Cons.IH[OF this Cons.prems(2)] Cons.prems(2) show ?thesis
      by (simp split: if_splits)
  qed
qed

lemma StoreFollowings_error:
  "StoreFollowings fs d acc ids = (Inl e, fs', d') \<Longrightarrow> d' = d"
  unfolding StoreFollowings_def
  by (auto simp: Let_def split: prod.splits bool.splits sum.splits)

lemma StoreFollowings_stages:
  assumes "StoreFollowings fs d acc ids = (Inr u, fs', d')"
  obtains cur rows1 rows2 fs1 fs2 fs3 fs4 fs5 where
    "GetCurrentFollowings fs1 d acc = (Inr cur, fs2)"
    "delete_unfollows acc (fold (\<lambda>i m. map_put m i) ids []) cur fs2 (following d) = (Inr rows1, fs3)"
    "insert_follows acc cur ids fs4 rows1 = (Inr rows2, fs5)"
    "d' = d\<lparr>following := rows2\<rparr>"
  using assms unfolding StoreFollowings_def
  by (auto simp: Let_def split: prod.splits bool.splits sum.splits)

lemma StoreFollowings_rows:
  assumes "StoreFollowings fs d acc ids = (Inr u, fs', d')"
  shows "{i. (acc, i) \<in> set (following d')} = set ids"
    and "(\<And>i. \<not> P (acc, i)) \<Longrightarrow> filter P (following d') = filter P (following d)"
    and "watched_accounts d' = watched_accounts d"
    and "follow_events d' = follow_events d"
proof -
  from assms obtain cur rows1 rows2 fs1 fs2 fs3 fs4 fs5 where
    g: "GetCurrentFollowings fs1 d acc = (Inr cur, fs2)" and
    del: "delete_unfollows acc (fold (\<lambda>i m. map_put m i) ids []) cur fs2 (following d) = (Inr rows1, fs3)" and
    ins: "insert_follows acc cur ids fs4 rows1 = (Inr rows2, fs5)" and
    d': "d' = d\<lparr>following := rows2\<rparr>"
    by (rule StoreFollowings_stages)
  from GetCurrentFollowings_ok[OF g] have cur: "set cur = {i. (acc, i) \<in> set (following d)}" by simp
  from delete_unfollows_ok[OF del]
  have r1: "rows1 = filter (\<lambda>r. \<not> (fst r = acc \<and> snd r \<in> set cur \<and> snd r \<notin> set ids)) (following d)"
    by (simp add: set_fold_map_put)
  from insert_follows_ok[OF ins]
  have r2: "set rows2 = set rows1 \<union> {(acc, i) | i. i \<in> set ids \<and> i \<notin> set cur}" .
  show "{i. (acc, i) \<in> set (following d')} = set ids"
    unfolding d' using r1 r2 cur by auto
  show "watched_accounts d' = watched_accounts d" "follow_events d' = follow_events d"
    by (simp_all add: d')
  assume P: "\<And>i. \<not> P (acc, i)"
  have "filter P rows2 = filter P rows1" using insert_follows_frame[OF ins] P by blast
  also have "\<dots> = filter P (following d)"
    unfolding r1 using P by (auto intro!: filter_cong) 
  finally show "filter P (following d') = filter P (following d)" by (simp add: d')
qed


subsection \<open>The two diff loops\<close>

lemma find_new_follows_eq:
  "find_new_follows cur ids nm nf =
     (fold (\<lambda>i m. map_put m i) ids nm, nf @ filter (\<lambda>i. i \<notin> set cur) ids)"
  by (induction ids arbitrary: nm nf) (simp_all add: map_get_def)

lemma find_unfollows_eq:
  "find_unfollows nm cur uf = uf @ filter (\<lambda>i. i \<notin> set nm) cur"
  by (induction cur arbitrary: uf) (simp_all add: map_get_def)

lemma detect_changes_eq:
  "detect_changes cur ids =
     (filter (\<lambda>i. i \<notin> set cur) ids, filter (\<lambda>i. i \<notin> set ids) cur)"
  by (simp add: detect_changes_def find_new_follows_eq find_unfollows_eq set_fold_map_put)

lemma detect_changes_empty_iff:
  "(detect_changes cur ids = ([], [])) = (set ids = set cur)"
  by (auto simp: detect_changes_eq filter_empty_conv)

subsection \<open>The event table\<close>

lemma insert_events_ok:
  "insert_events acc kind ctx now ids fs evs = (Inr evs', fs') \<Longrightarrow>
     \<exists>new. evs' = evs @ new \<and>
       map (\<lambda>e. (ev_watched_account_id e, ev_user_id e, ev_event_type e, ev_detected_at e)) new
         = map (\<lambda>i. (acc, i, kind, now)) ids"
proof (induction ids arbitrary: fs evs)
  case Nil
  then show ?case by simp
next
  case (Cons i ids)
  let ?e = "\<lparr>ev_id = new_rowid (map ev_id evs), ev_watched_account_id = acc,
             ev_user_id = i, ev_event_type = kind, ev_detected_at = now\<rparr>"
  from Cons.prems obtain fs1 where
    "insert_events acc kind ctx now ids fs1 (evs @ [?e]) = (Inr evs', fs')"
    by (auto split: prod.splits bool.splits)
  from Cons.IH[OF this] obtain new where
    "evs' = (evs @ [?e]) @ new"
    "map (\<lambda>e. (ev_watched_account_id e, ev_user_id e, ev_event_type e, ev_detected_at e)) new
         = map (\<lambda>i. (acc, i, kind, now)) ids"
    by blast
  then show ?case by (intro exI[of _ "?e # new"]) simp
qed

lemma StoreFollowEvents_error:
  "StoreFollowEvents fs d acc follows unfollows now = (Inl e, fs', d') \<Longrightarrow> d' = d"
  unfolding StoreFollowEvents_def
  by (auto split: prod.splits bool.splits sum.splits)

lemma StoreFollowEvents_ok:
  assumes "StoreFollowEvents fs d acc follows unfollows now = (Inr u, fs', d')"
  shows "\<exists>new. d' = d\<lparr>follow_events := follow_events d @ new\<rparr> \<and>
       map (\<lambda>e. (ev_watched_account_id e, ev_user_id e, ev_event_type e, ev_detected_at e)) new
         = map (\<lambda>i. (acc, i, EventTypeFollow, now)) follows
           @ map (\<lambda>i. (acc, i, EventTypeUnfollow, now)) unfollows"
proof -
  from assms obtain fs2 fs3 fs4 evs1 evs2 where
    a: "insert_events acc EventTypeFollow ''inserting follow event for '' now
             follows fs2 (follow_events d) = (Inr evs1, fs3)" and
    b: "insert_events acc EventTypeUnfollow ''inserting unfollow event for '' now
             unfollows fs3 evs1 = (Inr evs2, fs4)" and
    d': "d' = d\<lparr>follow_events := evs2\<rparr>"
    unfolding StoreFollowEvents_def
    by (auto split: prod.splits bool.splits sum.splits)
  from insert_events_ok[OF a] obtain n1 where n1: "evs1 = follow_events d @ n1"
     "map (\<lambda>e. (ev_watched_account_id e, ev_user_id e, ev_event_type e, ev_detected_at e)) n1
         = map (\<lambda>i. (acc, i, EventTypeFollow, now)) follows" by blast
  from insert_events_ok[OF b] obtain n2 where n2: "evs2 = evs1 @ n2"
     "map (\<lambda>e. (ev_watched_account_id e, ev_user_id e, ev_event_type e, ev_detected_at e)) n2
         = map (\<lambda>i. (acc, i, EventTypeUnfollow, now)) unfollows" by blast
  show ?thesis
    by (intro exI[of _ "n1 @ n2"]) (simp add: d' n1 n2)
qed

subsection \<open>Removing an account\<close>

lemma RemoveWatchedAccount_error:
  "RemoveWatchedAccount fs d i = (Inl e, fs', d') \<Longrightarrow> d' = d"
  unfolding RemoveWatchedAccount_def
  by (auto split: prod.splits bool.splits)

lemma RemoveWatchedAccount_ok:
  "RemoveWatchedAccount fs d i = (Inr u, fs', d') \<Longrightarrow>
     d' = d\<lparr>following := filter (\<lambda>r. fst r \<noteq> i) (following d),
            watched_accounts := filter (\<lambda>a. ID a \<noteq> i) (watched_accounts d)\<rparr>"
  unfolding RemoveWatchedAccount_def
  by (auto split: prod.splits bool.splits)

lemma next_fault_fst: "fst (next_fault fs) = (fs \<noteq> [] \<and> hd fs)"
  by (cases fs) auto

lemma next_fault_snd: "snd (next_fault fs) = tl fs"
  by (cases fs) auto

lemma RemoveWatchedAccount_fails_iff:
  "(\<exists>e. fst (RemoveWatchedAccount fs d i) = Inl e) = (True \<in> set (take 4 fs))"
proof -
  obtain b1 f1 where 1: "next_fault fs = (b1, f1)" by (cases "next_fault fs")
  obtain b2 f2 where 2: "next_fault f1 = (b2, f2)" by (cases "next_fault f1")
  obtain b3 f3 where 3: "next_fault f2 = (b3, f3)" by (cases "next_fault f2")
  obtain b4 f4 where 4: "next_fault f3 = (b4, f4)" by (cases "next_fault f3")
  have l: "(\<exists>e. fst (RemoveWatchedAccount fs d i) = Inl e) = (b1 \<or> b2 \<or> b3 \<or> b4)"
    by (auto simp: RemoveWatchedAccount_def 1 2 3 4 split: bool.splits)
  have r: "(True \<in> set (take 4 fs)) = (b1 \<or> b2 \<or> b3 \<or> b4)"
    using 1 2 3 4
    by (cases fs; cases "tl fs"; cases "tl (tl fs)"; cases "tl (tl (tl fs))") 
       (auto simp: take_Suc_conv_app_nth numeral_eq_Suc)
  show ?thesis using l r by simp
qed

lemma GetCurrentFollowings_same:
  "GetCurrentFollowings fs d acc = (Inr c1, fs') \<Longrightarrow>
   GetCurrentFollowings gs d acc = (Inr c2, gs') \<Longrightarrow> c1 = c2"
  by (auto simp: GetCurrentFollowings_def split: prod.splits bool.splits)

lemma remove_first_match_unknown:
  "\<forall>a \<in> set accs. Username a \<noteq> username \<Longrightarrow>
     remove_first_match username accs m
       = (Some (Message (''account @'' @ username @ '' not found'')), m)"
  by (induction accs) simp_all

subsection \<open>Pagination\<close>

lemma fetch_pages_serves:
  "serves request c ps \<Longrightarrow>
     fetch_pages request allIDs c = Some (Inr (allIDs @ concat (map IDs ps)))"
proof (induction request c ps arbitrary: allIDs rule: serves.induct)
  case (1 request c)
  then show ?case by simp
next
  case (2 request c p)
  then show ?case by (subst fetch_pages.simps) simp
next
  case (3 request c p q ps)
  from "3.prems" have req: "request (if c \<noteq> ''0'' then Some c else None) = Inr p"
    and nz: "NextCursor p \<noteq> 0" and rest: "serves request (NextCursorStr p) (q # ps)"
    by simp_all
  have "fetch_pages request allIDs c = fetch_pages request (allIDs @ IDs p) (NextCursorStr p)"
    by (subst fetch_pages.simps) (simp add: req nz)
  also have "\<dots> = Some (Inr ((allIDs @ IDs p) @ concat (map IDs (q # ps))))"
    by (rule "3.IH"[OF rest])
  finally show ?case by simp
qed

lemma fetch_pages_error:
  "request (if c \<noteq> ''0'' then Some c else None) = Inl e \<Longrightarrow>
     fetch_pages request allIDs c = Some (Inl (Wrapped ''sending request'' e))"
  by (subst fetch_pages.simps) simp

subsection \<open>Adding an account\<close>

lemma AddWatchedAccount_error:
  "AddWatchedAccount fs d a = (Inl e, fs1, d1) \<Longrightarrow> d1 = d"
  by (auto simp: AddWatchedAccount_def Let_def split: prod.splits bool.splits if_splits)

lemma AddWatchedAccount_ok:
  "AddWatchedAccount fs d a = (Inr account, fs1, d1) \<Longrightarrow>
     d1 = d\<lparr>watched_accounts := watched_accounts d @ [account]\<rparr> \<and>
     Username account = Username a \<and> UserID account = UserID a"
  by (auto simp: AddWatchedAccount_def Let_def split: prod.splits bool.splits if_splits)

lemma loadAccounts_keeps:
  "loadAccounts m = (msg, m1) \<Longrightarrow>
     db m1 = db m \<and> posted m1 = posted m \<and> logged m1 = logged m \<and> mode m1 = mode m"
  by (auto simp: loadAccounts_def GetWatchedAccounts_def split: prod.splits bool.splits)

subsection \<open>Posts made by the notification manager\<close>

lemma send_posts: "snd (send w d payload) = [(URL d, DiscordBody payload)]"
  by (simp add: send_def split: sum.splits)

lemma sendMessage_posts:
  "snd (sendMessage w t text) =
     (if botToken t = [] \<or> chatID t = [] then []
      else [(telegram_url t, TelegramBody (chatID t) text)])"
  by (simp add: sendMessage_def split: sum.splits)

lemma on_channel_posts:
  "fst (on_channel enabled channel notify) =
     (if enabled \<and> channel \<noteq> None then snd (notify (the channel)) else [])"
  by (cases channel; cases enabled; cases "notify (the channel)"; cases "fst (notify (the channel))")
     (simp_all add: on_channel_def)

lemma NotifyNewFollows_posts:
  "fst (NotifyNewFollows w nm account follows) =
     (if enableDiscord nm \<and> discord nm \<noteq> None \<and> URL (the (discord nm)) \<noteq> []
      then [(URL (the (discord nm)), DiscordBody (follows_payload w account follows))] else [])
     @ (if enableTelegram nm \<and> telegram nm \<noteq> None \<and> botToken (the (telegram nm)) \<noteq> []
            \<and> chatID (the (telegram nm)) \<noteq> []
        then [(telegram_url (the (telegram nm)),
               TelegramBody (chatID (the (telegram nm))) (follows_text w account follows))]
        else [])"
proof -
  have "fst (NotifyNewFollows w nm account follows) =
      fst (on_channel (enableDiscord nm) (discord nm)
             (\<lambda>d. Discord_NotifyNewFollows w d account follows))
      @ fst (on_channel (enableTelegram nm) (telegram nm)
             (\<lambda>t. Telegram_NotifyNewFollows w t account follows))"
    by (simp add: NotifyNewFollows_def split: prod.splits)
  then show ?thesis
    by (cases "discord nm"; cases "telegram nm")
       (simp_all add: on_channel_posts Discord_NotifyNewFollows_def Telegram_NotifyNewFollows_def
          send_posts sendMessage_posts)
qed

lemma NotifyUnfollows_posts:
  "fst (NotifyUnfollows w nm account unfollows) =
     (if enableDiscord nm \<and> discord nm \<noteq> None \<and> URL (the (discord nm)) \<noteq> []
      then [(URL (the (discord nm)), DiscordBody (unfollows_payload w account unfollows))] else [])
     @ (if enableTelegram nm \<and> telegram nm \<noteq> None \<and> botToken (the (telegram nm)) \<noteq> []
            \<and> chatID (the (telegram nm)) \<noteq> []
        then [(telegram_url (the (telegram nm)),
               TelegramBody (chatID (the (telegram nm))) (unfollows_text w account unfollows))]
        else [])"
proof -
  have "fst (NotifyUnfollows w nm account unfollows) =
      fst (on_channel (enableDiscord nm) (discord nm)
             (\<lambda>d. Discord_NotifyUnfollows w d account unfollows))
      @ fst (on_channel (enableTelegram nm) (telegram nm)
             (\<lambda>t. Telegram_NotifyUnfollows w t account unfollows))"
    by (simp add: NotifyUnfollows_def split: prod.splits)
  then show ?thesis
    by (cases "discord nm"; cases "telegram nm")
       (simp_all add: on_channel_posts Discord_NotifyUnfollows_def Telegram_NotifyUnfollows_def
          send_posts sendMessage_posts)
qed

lemma payload_ignores_http_post:
  "follows_payload (w\<lparr>http_post := h\<rparr>) a ids = follows_payload w a ids"
  "unfollows_payload (w\<lparr>http_post := h\<rparr>) a ids = unfollows_payload w a ids"
  "follows_text (w\<lparr>http_post := h\<rparr>) a ids = follows_text w a ids"
  "unfollows_text (w\<lparr>http_post := h\<rparr>) a ids = unfollows_text w a ids"
  by (simp_all add: follows_payload_def unfollows_payload_def follows_text_def unfollows_text_def)

lemma dispatch_fields:
  "db (dispatch w a nf uf m) = db m"
  "sql_faults (dispatch w a nf uf m) = sql_faults m"
  "mode (dispatch w a nf uf m) = mode m"
  "accounts (dispatch w a nf uf m) = accounts m"
  "config (dispatch w a nf uf m) = config m"
  "notifications (dispatch w a nf uf m) = notifications m"
  by (simp_all add: dispatch_def Let_def split: option.splits prod.splits)

lemma dispatch_posted:
  "posted (dispatch w a nf uf m) =
     posted m @
     (case notifications m of
        None \<Rightarrow> []
      | Some nm \<Rightarrow>
          (if EnableFollowNotifications (config m) \<and> nf \<noteq> []
           then fst (NotifyNewFollows w nm a nf) else [])
          @ (if EnableUnfollowNotifications (config m) \<and> uf \<noteq> []
             then fst (NotifyUnfollows w nm a uf) else []))"
  by (simp add: dispatch_def Let_def split: option.splits prod.splits)

subsection \<open>A driver that does not fail\<close>

lemma insert_events_nofault:
  "\<exists>evs'. insert_events acc kind ctx now ids [] evs = (Inr evs', [])"
  by (induction ids arbitrary: evs) simp_all

lemma delete_unfollows_nofault:
  "\<exists>rows'. delete_unfollows acc nm is [] rows = (Inr rows', [])"
  by (induction "is" arbitrary: rows) simp_all

lemma insert_follows_nofault:
  "\<exists>rows'. insert_follows acc cur is [] rows = (Inr rows', [])"
  by (induction "is" arbitrary: rows) simp_all

lemma StoreFollowEvents_nofault:
  "\<exists>d'. StoreFollowEvents [] d acc follows unfollows now = (Inr (), [], d')"
proof -
  obtain evs1 where a: "insert_events acc EventTypeFollow ''inserting follow event for '' now
             follows [] (follow_events d) = (Inr evs1, [])"
    using insert_events_nofault by blast
  obtain evs2 where b: "insert_events acc EventTypeUnfollow ''inserting unfollow event for '' now
             unfollows [] evs1 = (Inr evs2, [])"
    using insert_events_nofault by blast
  show ?thesis by (simp add: StoreFollowEvents_def a b)
qed

lemma StoreFollowings_nofault:
  "\<exists>d'. StoreFollowings [] d acc ids = (Inr (), [], d')"
proof -
  let ?cur = "fold (\<lambda>userID followings. map_put followings userID)
                  (map snd (filter (\<lambda>r. fst r = acc) (following d))) []"
  obtain rows1 where a: "delete_unfollows acc (fold (\<lambda>i m. map_put m i) ids []) ?cur []
      (following d) = (Inr rows1, [])"
    using delete_unfollows_nofault by blast
  obtain rows2 where b: "insert_follows acc ?cur ids [] rows1 = (Inr rows2, [])"
    using insert_follows_nofault by blast
  show ?thesis by (simp add: StoreFollowings_def GetCurrentFollowings_no_fault a b)
qed

lemma dispatch_nil: "dispatch w a [] [] m = m"
  by (simp add: dispatch_def split: option.splits)

subsection \<open>One iteration of the check loop\<close>

lemma check_account_frame:
  assumes "check_account w X m = Some m1" and P: "\<And>i. \<not> P (ID X, i)"
  shows "filter P (following (db m1)) = filter P (following (db m))"
proof (cases "GetFollowingIDs (upstream w) (UserID X)")
  case None
  with assms show ?thesis by (simp add: check_account_def)
next
  case (Some f)
  show ?thesis
  proof (cases f)
    case (Inl e)
    with assms Some show ?thesis by (auto simp: check_account_def)
  next
    case ids: (Inr ids)
    obtain g fs1 where g: "GetCurrentFollowings (sql_faults m) (db m) (ID X) = (g, fs1)"
      by (cases "GetCurrentFollowings (sql_faults m) (db m) (ID X)") auto
    show ?thesis
    proof (cases g)
      case (Inl e)
      with assms Some ids g show ?thesis by (auto simp: check_account_def)
    next
      case cur: (Inr cur)
      obtain nf uf where dc: "detect_changes cur ids = (nf, uf)"
        by (cases "detect_changes cur ids") auto
      show ?thesis
      proof (cases "nf = [] \<and> uf = []")
        case True
        with assms Some ids g cur dc show ?thesis by (auto simp: check_account_def)
      next
        case False
        obtain r1 fs2 d1 where ev:
          "StoreFollowEvents fs1 (db m) (ID X) nf uf (clock w) = (r1, fs2, d1)"
          by (cases "StoreFollowEvents fs1 (db m) (ID X) nf uf (clock w)") auto
        show ?thesis
        proof (cases r1)
          case (Inl e)
          with ev have "d1 = db m" by (simp add: StoreFollowEvents_error)
          with assms Some ids g cur dc False ev Inl show ?thesis
            by (auto simp: check_account_def)
        next
          case r1: (Inr u)
          from StoreFollowEvents_ok[OF ev[unfolded r1]]
          have d1: "following d1 = following (db m)" by auto
          obtain r2 fs3 d2 where st: "StoreFollowings fs2 d1 (ID X) ids = (r2, fs3, d2)"
            by (cases "StoreFollowings fs2 d1 (ID X) ids") auto
          show ?thesis
          proof (cases r2)
            case (Inl e)
            with st have "d2 = d1" by (simp add: StoreFollowings_error)
            with assms Some ids g cur dc False ev r1 st Inl d1 show ?thesis
              by (auto simp: check_account_def)
          next
            case r2: (Inr u2)
            from StoreFollowings_rows(2)[OF st[unfolded r2], of P] P
            have "filter P (following d2) = filter P (following d1)" by blast
            moreover from assms Some ids g cur dc False ev r1 st r2
            have "db m1 = d2" by (auto simp: check_account_def dispatch_fields)
            ultimately show ?thesis using d1 by simp
          qed
        qed
      qed
    qed
  qed
qed

lemma check_account_unchanged:
  assumes fetch: "GetFollowingIDs (upstream w) (UserID a) = Some (Inr latest)"
      and same: "set latest = {i. (ID a, i) \<in> set (following (db m))}"
  shows "\<exists>m1. check_account w a m = Some m1 \<and> db m1 = db m \<and> posted m1 = posted m"
proof -
  obtain g fs1 where g: "GetCurrentFollowings (sql_faults m) (db m) (ID a) = (g, fs1)"
    by (cases "GetCurrentFollowings (sql_faults m) (db m) (ID a)") auto
  show ?thesis
  proof (cases g)
    case (Inl e)
    with fetch g show ?thesis by (simp add: check_account_def)
  next
    case (Inr cur)
    with g GetCurrentFollowings_ok[of "sql_faults m" "db m" "ID a" cur fs1] same
    have "set latest = set cur" by simp
    then have "detect_changes cur latest = ([], [])" by (simp add: detect_changes_empty_iff)
    with fetch g Inr show ?thesis by (simp add: check_account_def)
  qed
qed

lemma check_account_nofault:
  assumes nf: "sql_faults m = []"
      and fetch: "GetFollowingIDs (upstream w) (UserID a) = Some (Inr latest)"
      and cur: "GetCurrentFollowings [] (db m) (ID a) = (Inr current, [])"
      and diff: "detect_changes current latest = (added, removed)"
  shows "\<exists>d2. check_account w a m = Some (dispatch w a added removed (m\<lparr>db := d2\<rparr>)) \<and>
           {i. (ID a, i) \<in> set (following d2)} = set latest \<and>
           (\<exists>new. follow_events d2 = follow_events (db m) @ new \<and>
              map (\<lambda>e. (ev_watched_account_id e, ev_user_id e, ev_event_type e, ev_detected_at e)) new
                = map (\<lambda>i. (ID a, i, EventTypeFollow, clock w)) added
                  @ map (\<lambda>i. (ID a, i, EventTypeUnfollow, clock w)) removed) \<and>
           watched_accounts d2 = watched_accounts (db m) \<and>
           filter (\<lambda>row. fst row \<noteq> ID a) (following d2)
             = filter (\<lambda>row. fst row \<noteq> ID a) (following (db m))"
proof (cases "added = [] \<and> removed = []")
  case True
  with diff have "set latest = set current" by (simp add: detect_changes_empty_iff[symmetric])
  with GetCurrentFollowings_ok[OF cur]
  have snap: "{i. (ID a, i) \<in> set (following (db m))} = set latest" by simp
  have "m\<lparr>sql_faults := []\<rparr> = m" using nf by simp
  with True fetch cur diff nf
  have "check_account w a m = Some (dispatch w a added removed (m\<lparr>db := db m\<rparr>))"
    by (simp add: check_account_def dispatch_nil)
  with snap True show ?thesis by (intro exI[of _ "db m"]) simp
next
  case False
  obtain d1 where ev: "StoreFollowEvents [] (db m) (ID a) added removed (clock w) = (Inr (), [], d1)"
    using StoreFollowEvents_nofault by blast
  obtain d2 where st: "StoreFollowings [] d1 (ID a) latest = (Inr (), [], d2)"
    using StoreFollowings_nofault by blast
  from StoreFollowEvents_ok[OF ev] obtain new where
    d1: "d1 = (db m)\<lparr>follow_events := follow_events (db m) @ new\<rparr>" and
    new: "map (\<lambda>e. (ev_watched_account_id e, ev_user_id e, ev_event_type e, ev_detected_at e)) new
                = map (\<lambda>i. (ID a, i, EventTypeFollow, clock w)) added
                  @ map (\<lambda>i. (ID a, i, EventTypeUnfollow, clock w)) removed"
    by blast
  note rows = StoreFollowings_rows[OF st]
  have eq: "m\<lparr>sql_faults := [], db := d2\<rparr> = m\<lparr>db := d2\<rparr>"
    using nf by (intro Model.equality) simp_all
  from False fetch cur diff nf ev st
  have "check_account w a m = Some (dispatch w a added removed (m\<lparr>sql_faults := [], db := d2\<rparr>))"
    by (auto simp: check_account_def)
  then have "check_account w a m = Some (dispatch w a added removed (m\<lparr>db := d2\<rparr>))"
    by (simp only: eq)
  moreover have "follow_events d2 = follow_events (db m) @ new"
    "watched_accounts d2 = watched_accounts (db m)"
    using rows(3,4) d1 by simp_all
  moreover have "filter (\<lambda>row. fst row \<noteq> ID a) (following d2)
             = filter (\<lambda>row. fst row \<noteq> ID a) (following (db m))"
    using rows(2)[of "\<lambda>row. fst row \<noteq> ID a"] d1 by simp
  ultimately show ?thesis using rows(1) new by blast
qed

lemma check_account_fetch_error:
  "GetFollowingIDs (upstream w) (UserID X) = Some (Inl e) \<Longrightarrow>
     check_account w X m = Some (m\<lparr>logged := logged m @ [e]\<rparr>)"
  by (simp add: check_account_def)

lemma check_account_returns:
  "GetFollowingIDs (upstream w) (UserID X) = Some f \<Longrightarrow> \<exists>m1. check_account w X m = Some m1"
  by (cases f) (auto simp: check_account_def split: prod.splits sum.splits)

subsection \<open>Unfolding for concrete runs\<close>

lemmas store_eval =
  StoreFollowings_def StoreFollowEvents_def GetCurrentFollowings_def RemoveWatchedAccount_def
  AddWatchedAccount_def GetWatchedAccounts_def ProcessFollowingChanges_def
  map_put_def map_get_def new_rowid_def detect_changes_eq

section \<open>Properties of the store and of the diff\<close>

text \<open>
  C2. For every stored key list \<open>current\<close> and every fetched list \<open>latest\<close>, the change
  detection yields \<open>added\<close> with the elements of \<open>latest\<close> not in \<open>current\<close>, and \<open>removed\<close>
  with the elements of \<open>current\<close> not in \<open>latest\<close>; the two are disjoint; both are empty
  exactly when the two inputs have the same elements, in particular for equal and for empty
  inputs.
\<close>

theorem detect_changes_diff:
  "set (fst (detect_changes current latest)) = set latest - set current \<and>
   set (snd (detect_changes current latest)) = set current - set latest \<and>
   set (fst (detect_changes current latest)) \<inter> set (snd (detect_changes current latest)) = {} \<and>
   (detect_changes current latest = ([], [])) = (set latest = set current) \<and>
   detect_changes current current = ([], []) \<and>
   detect_changes [] [] = ([], [])"
  by (auto simp: detect_changes_eq filter_empty_conv)

theorem detect_changes_diff_witness:
  "detect_changes [''u1'', ''u2'', ''u3''] [''u2'', ''u3'', ''u4''] = ([''u4''], [''u1'']) \<and>
   set [''u4''] = set [''u2'', ''u3'', ''u4''] - set [''u1'', ''u2'', ''u3'']"
  using detect_changes_diff [of "[''u1'', ''u2'', ''u3'']" "[''u2'', ''u3'', ''u4'']"]
  by (simp add: detect_changes_eq)

text \<open>
  C4. After \<open>StoreFollowings acc latest\<close> has succeeded, a successful
  \<open>GetCurrentFollowings acc\<close> returns exactly the elements of \<open>latest\<close>, each once,
  whatever the tables held before and whatever the driver's failure schedule was.
\<close>

theorem StoreFollowings_converges:
  assumes "StoreFollowings fs d acc latest = (Inr u, fs1, d1)"
      and "GetCurrentFollowings fs2 d1 acc = (Inr snapshot, fs3)"
  shows "set snapshot = set latest \<and> distinct snapshot"
  using StoreFollowings_rows(1)[OF assms(1)] GetCurrentFollowings_ok[OF assms(2)] by simp


theorem StoreFollowings_converges_witness:
  "StoreFollowings []
      \<lparr>watched_accounts = [], following = [(1, ''u1''), (1, ''u2''), (2, ''x'')],
       follow_events = []\<rparr> 1 [''u2'', ''u3'']
     = (Inr (), [],
        \<lparr>watched_accounts = [], following = [(1, ''u2''), (2, ''x''), (1, ''u3'')],
         follow_events = []\<rparr>) \<and>
   GetCurrentFollowings []
      \<lparr>watched_accounts = [], following = [(1, ''u2''), (2, ''x''), (1, ''u3'')],
       follow_events = []\<rparr> 1 = (Inr [''u2'', ''u3''], []) \<and>
   set [''u2'', ''u3''] = set [''u2'', ''u3''] \<and> distinct [''u2'', ''u3'']"
proof -
  have s: "StoreFollowings []
      \<lparr>watched_accounts = [], following = [(1, ''u1''), (1, ''u2''), (2, ''x'')],
       follow_events = []\<rparr> 1 [''u2'', ''u3'']
     = (Inr (), [],
        \<lparr>watched_accounts = [], following = [(1, ''u2''), (2, ''x''), (1, ''u3'')],
         follow_events = []\<rparr>)"
    by (simp add: store_eval)
  have g: "GetCurrentFollowings []
      \<lparr>watched_accounts = [], following = [(1, ''u2''), (2, ''x''), (1, ''u3'')],
       follow_events = []\<rparr> 1 = (Inr [''u2'', ''u3''], [])"
    by (simp add: store_eval)
  from StoreFollowings_converges [OF s g] s g show ?thesis by simp
qed

text \<open>
  C10. Whatever \<open>StoreFollowings accID ids\<close> returns, the accounts table, the event table and
  the following rows of every other account are as before.
\<close>

theorem StoreFollowings_frame:
  assumes "StoreFollowings fs d accID ids = (r, fs1, d1)"
  shows "watched_accounts d1 = watched_accounts d \<and>
         follow_events d1 = follow_events d \<and>
         filter (\<lambda>row. fst row \<noteq> accID) (following d1)
           = filter (\<lambda>row. fst row \<noteq> accID) (following d)"
proof (cases r)
  case (Inl e)
  with assms have "d1 = d" by (simp add: StoreFollowings_error)
  then show ?thesis by simp
next
  case (Inr u)
  with assms have ok: "StoreFollowings fs d accID ids = (Inr u, fs1, d1)" by simp
  show ?thesis
    using StoreFollowings_rows(3,4)[OF ok]
      StoreFollowings_rows(2)[OF ok, of "\<lambda>row. fst row \<noteq> accID"] by simp
qed

theorem StoreFollowings_frame_witness:
  "StoreFollowings []
      \<lparr>watched_accounts = [\<lparr>ID = 1, Username = ''a'', UserID = ''10''\<rparr>],
       following = [(1, ''u1''), (1, ''u2''), (2, ''x'')],
       follow_events = []\<rparr> 1 [''u2'', ''u3'']
     = (Inr (), [],
        \<lparr>watched_accounts = [\<lparr>ID = 1, Username = ''a'', UserID = ''10''\<rparr>],
         following = [(1, ''u2''), (2, ''x''), (1, ''u3'')],
         follow_events = []\<rparr>) \<and>
   filter (\<lambda>row. fst row \<noteq> 1) [(1::int, ''u2''), (2, ''x''), (1, ''u3'')]
     = filter (\<lambda>row. fst row \<noteq> 1) [(1, ''u1''), (1, ''u2''), (2, ''x'')]"
proof -
  have s: "StoreFollowings []
      \<lparr>watched_accounts = [\<lparr>ID = 1, Username = ''a'', UserID = ''10''\<rparr>],
       following = [(1, ''u1''), (1, ''u2''), (2, ''x'')],
       follow_events = []\<rparr> 1 [''u2'', ''u3'']
     = (Inr (), [],
        \<lparr>watched_accounts = [\<lparr>ID = 1, Username = ''a'', UserID = ''10''\<rparr>],
         following = [(1, ''u2''), (2, ''x''), (1, ''u3'')],
         follow_events = []\<rparr>)"
    by (simp add: store_eval)
  from StoreFollowings_frame [OF s] s show ?thesis by simp
qed

text \<open>
  C7, as the code has it. \<open>RemoveWatchedAccount\<close> returns an error exactly when one of its
  four driver calls (Begin, two DELETEs, Commit) fails, and then the tables are as before.
  Otherwise it succeeds, whether or not an account with that ID exists, and the account row
  and every following row of that ID are gone together; the event table is kept. There is
  no NotFound result at this level.
\<close>

theorem RemoveWatchedAccount_atomic:
  assumes "RemoveWatchedAccount fs d accountID = (r, fs1, d1)"
  shows "(case r of
            Inl e \<Rightarrow> True \<in> set (take 4 fs) \<and> d1 = d
          | Inr u \<Rightarrow>
              True \<notin> set (take 4 fs) \<and>
              watched_accounts d1 = filter (\<lambda>a. ID a \<noteq> accountID) (watched_accounts d) \<and>
              following d1 = filter (\<lambda>row. fst row \<noteq> accountID) (following d) \<and>
              follow_events d1 = follow_events d)"
proof (cases r)
  case (Inl e)
  with assms have "d1 = d" by (simp add: RemoveWatchedAccount_error)
  moreover from Inl assms have "True \<in> set (take 4 fs)"
    using RemoveWatchedAccount_fails_iff[of fs d accountID] by simp
  ultimately show ?thesis using Inl by simp
next
  case (Inr u)
  with assms have "d1 = d\<lparr>following := filter (\<lambda>r. fst r \<noteq> accountID) (following d),
            watched_accounts := filter (\<lambda>a. ID a \<noteq> accountID) (watched_accounts d)\<rparr>"
    by (simp add: RemoveWatchedAccount_ok)
  moreover from Inr assms have "True \<notin> set (take 4 fs)"
    using RemoveWatchedAccount_fails_iff[of fs d accountID] by simp
  ultimately show ?thesis using Inr by simp
qed

theorem RemoveWatchedAccount_atomic_witness:
  "RemoveWatchedAccount []
      \<lparr>watched_accounts = [\<lparr>ID = 1, Username = ''a'', UserID = ''10''\<rparr>,
                           \<lparr>ID = 2, Username = ''b'', UserID = ''20''\<rparr>],
       following = [(1, ''u1''), (2, ''u1''), (1, ''u2'')],
       follow_events = [\<lparr>ev_id = 1, ev_watched_account_id = 1, ev_user_id = ''u1'',
                         ev_event_type = EventTypeFollow, ev_detected_at = 3\<rparr>]\<rparr> 1
     = (Inr (), [],
        \<lparr>watched_accounts = [\<lparr>ID = 2, Username = ''b'', UserID = ''20''\<rparr>],
         following = [(2, ''u1'')],
         follow_events = [\<lparr>ev_id = 1, ev_watched_account_id = 1, ev_user_id = ''u1'',
                           ev_event_type = EventTypeFollow, ev_detected_at = 3\<rparr>]\<rparr>) \<and>
   True \<notin> set (take 4 ([] :: bool list))"
proof -
  have s: "RemoveWatchedAccount []
      \<lparr>watched_accounts = [\<lparr>ID = 1, Username = ''a'', UserID = ''10''\<rparr>,
                           \<lparr>ID = 2, Username = ''b'', UserID = ''20''\<rparr>],
       following = [(1, ''u1''), (2, ''u1''), (1, ''u2'')],
       follow_events = [\<lparr>ev_id = 1, ev_watched_account_id = 1, ev_user_id = ''u1'',
                         ev_event_type = EventTypeFollow, ev_detected_at = 3\<rparr>]\<rparr> 1
     = (Inr (), [],
        \<lparr>watched_accounts = [\<lparr>ID = 2, Username = ''b'', UserID = ''20''\<rparr>],
         following = [(2, ''u1'')],
         follow_events = [\<lparr>ev_id = 1, ev_watched_account_id = 1, ev_user_id = ''u1'',
                           ev_event_type = EventTypeFollow, ev_detected_at = 3\<rparr>]\<rparr>)"
    by (simp add: RemoveWatchedAccount_def)
  from RemoveWatchedAccount_atomic [OF s] s show ?thesis by simp
qed

text \<open>
  Removing an ID that no account has succeeds and changes nothing.
\<close>

theorem RemoveWatchedAccount_absent_counterexample:
  "RemoveWatchedAccount []
      \<lparr>watched_accounts = [\<lparr>ID = 1, Username = ''a'', UserID = ''10''\<rparr>],
       following = [(1, ''u1''), (1, ''u2'')], follow_events = []\<rparr> 7
     = (Inr (), [],
        \<lparr>watched_accounts = [\<lparr>ID = 1, Username = ''a'', UserID = ''10''\<rparr>],
         following = [(1, ''u1''), (1, ''u2'')], follow_events = []\<rparr>)"
  by (simp add: RemoveWatchedAccount_def)

section \<open>Properties of the reconciliation update\<close>

text \<open>
  C1, as the code has it. \<open>ProcessFollowingChanges\<close> runs two transactions, first the events,
  then the snapshot. With \<open>added\<close> and \<open>removed\<close> computed from the stored snapshot, a call ends
  in one of three ways: nothing at all was written (and if it reports success the delta
  was empty); or the whole batch of events was appended, an error is reported and the
  following table is as before; or the whole batch was appended, the call succeeds, the
  account's snapshot is exactly \<open>latest\<close> and the rows of other accounts are untouched. So
  each batch is all-or-nothing and the snapshot never changes without its events, but events
  can be recorded without the snapshot update.
\<close>

theorem ProcessFollowingChanges_outcomes:
  assumes run: "ProcessFollowingChanges fs d account latest now = (r, fs1, d1)"
      and cur: "GetCurrentFollowings gs d (ID account) = (Inr current, gs1)"
      and diff: "detect_changes current latest = (added, removed)"
  shows "(d1 = d \<and> (r = Inr () \<longrightarrow> added = [] \<and> removed = []))
       \<or> ((added \<noteq> [] \<or> removed \<noteq> []) \<and>
          watched_accounts d1 = watched_accounts d \<and>
          (\<exists>new. follow_events d1 = follow_events d @ new \<and>
             map (\<lambda>e. (ev_watched_account_id e, ev_user_id e, ev_event_type e, ev_detected_at e)) new
               = map (\<lambda>i. (ID account, i, EventTypeFollow, now)) added
                 @ map (\<lambda>i. (ID account, i, EventTypeUnfollow, now)) removed) \<and>
          ((\<exists>e. r = Inl e) \<and> following d1 = following d
           \<or> r = Inr () \<and> {i. (ID account, i) \<in> set (following d1)} = set latest \<and>
             filter (\<lambda>row. fst row \<noteq> ID account) (following d1)
               = filter (\<lambda>row. fst row \<noteq> ID account) (following d)))"
proof (cases "GetCurrentFollowings fs d (ID account)")
  case (Pair g fs0)
  show ?thesis
  proof (cases g)
    case (Inl e)
    with Pair run have "d1 = d" "r = Inl (Wrapped ''getting current followings'' e)"
      by (auto simp: ProcessFollowingChanges_def)
    then show ?thesis by simp
  next
    case (Inr c)
    with Pair cur have c: "c = current" by (auto dest: GetCurrentFollowings_same)
    show ?thesis
    proof (cases "added = [] \<and> removed = []")
      case True
      with Pair Inr c diff run have "d1 = d"
        by (auto simp: ProcessFollowingChanges_def)
      with True show ?thesis by simp
    next
      case False
      obtain r1 fs2 d2 where ev:
        "StoreFollowEvents fs0 d (ID account) added removed now = (r1, fs2, d2)"
        by (cases "StoreFollowEvents fs0 d (ID account) added removed now") auto
      show ?thesis
      proof (cases r1)
        case (Inl e)
        with ev have "d2 = d" by (simp add: StoreFollowEvents_error)
        with Pair Inr c diff run False ev Inl
        have "d1 = d" "r = Inl (Wrapped ''storing follow events'' e)"
          by (auto simp: ProcessFollowingChanges_def)
        then show ?thesis by simp
      next
        case r1: (Inr u)
        from StoreFollowEvents_ok[OF ev[unfolded r1]] obtain new where
          d2: "d2 = d\<lparr>follow_events := follow_events d @ new\<rparr>" and
          new: "map (\<lambda>e. (ev_watched_account_id e, ev_user_id e, ev_event_type e, ev_detected_at e)) new
               = map (\<lambda>i. (ID account, i, EventTypeFollow, now)) added
                 @ map (\<lambda>i. (ID account, i, EventTypeUnfollow, now)) removed"
          by blast
        obtain r2 fs3 d3 where st:
          "StoreFollowings fs2 d2 (ID account) latest = (r2, fs3, d3)"
          by (cases "StoreFollowings fs2 d2 (ID account) latest") auto
        show ?thesis
        proof (cases r2)
          case (Inl e)
          with st have "d3 = d2" by (simp add: StoreFollowings_error)
          with Pair Inr c diff run False ev r1 st Inl have "d1 = d2" "r = Inl (Wrapped ''updating followings'' e)"
            by (auto simp: ProcessFollowingChanges_def)
          with d2 new False show ?thesis by auto
        next
          case r2: (Inr u2)
          with Pair Inr c diff run False ev r1 st have res: "d1 = d3" "r = Inr ()"
            by (auto simp: ProcessFollowingChanges_def)
          note rows = StoreFollowings_rows[OF st[unfolded r2]]
          have "follow_events d1 = follow_events d @ new" "watched_accounts d1 = watched_accounts d"
            using rows(3,4) res d2 by simp_all
          moreover have "{i. (ID account, i) \<in> set (following d1)} = set latest"
            using rows(1) res by simp
          moreover have "filter (\<lambda>row. fst row \<noteq> ID account) (following d1)
               = filter (\<lambda>row. fst row \<noteq> ID account) (following d)"
            using rows(2)[of "\<lambda>row. fst row \<noteq> ID account"] res d2 by simp
          ultimately show ?thesis using new False res by auto
        qed
      qed
    qed
  qed
qed

theorem ProcessFollowingChanges_outcomes_witness:
  "ProcessFollowingChanges []
      \<lparr>watched_accounts = [\<lparr>ID = 1, Username = ''a'', UserID = ''10''\<rparr>],
       following = [(1, ''u1''), (1, ''u2''), (1, ''u3'')], follow_events = []\<rparr>
      \<lparr>ID = 1, Username = ''a'', UserID = ''10''\<rparr> [''u2'', ''u3'', ''u4''] 5
     = (Inr (), [],
        \<lparr>watched_accounts = [\<lparr>ID = 1, Username = ''a'', UserID = ''10''\<rparr>],
         following = [(1, ''u2''), (1, ''u3''), (1, ''u4'')],
         follow_events = [\<lparr>ev_id = 1, ev_watched_account_id = 1, ev_user_id = ''u4'',
                           ev_event_type = EventTypeFollow, ev_detected_at = 5\<rparr>,
                          \<lparr>ev_id = 2, ev_watched_account_id = 1, ev_user_id = ''u1'',
                           ev_event_type = EventTypeUnfollow, ev_detected_at = 5\<rparr>]\<rparr>) \<and>
   GetCurrentFollowings []
      \<lparr>watched_accounts = [\<lparr>ID = 1, Username = ''a'', UserID = ''10''\<rparr>],
       following = [(1, ''u1''), (1, ''u2''), (1, ''u3'')], follow_events = []\<rparr> 1
     = (Inr [''u1'', ''u2'', ''u3''], []) \<and>
   detect_changes [''u1'', ''u2'', ''u3''] [''u2'', ''u3'', ''u4''] = ([''u4''], [''u1'']) \<and>
   {i. (1::int, i) \<in> set [(1, ''u2''), (1, ''u3''), (1, ''u4'')]} = set [''u2'', ''u3'', ''u4'']"
proof -
  have s: "ProcessFollowingChanges []
      \<lparr>watched_accounts = [\<lparr>ID = 1, Username = ''a'', UserID = ''10''\<rparr>],
       following = [(1, ''u1''), (1, ''u2''), (1, ''u3'')], follow_events = []\<rparr>
      \<lparr>ID = 1, Username = ''a'', UserID = ''10''\<rparr> [''u2'', ''u3'', ''u4''] 5
     = (Inr (), [],
        \<lparr>watched_accounts = [\<lparr>ID = 1, Username = ''a'', UserID = ''10''\<rparr>],
         following = [(1, ''u2''), (1, ''u3''), (1, ''u4'')],
         follow_events = [\<lparr>ev_id = 1, ev_watched_account_id = 1, ev_user_id = ''u4'',
                           ev_event_type = EventTypeFollow, ev_detected_at = 5\<rparr>,
                          \<lparr>ev_id = 2, ev_watched_account_id = 1, ev_user_id = ''u1'',
                           ev_event_type = EventTypeUnfollow, ev_detected_at = 5\<rparr>]\<rparr>)"
    by (simp add: store_eval)
  have g: "GetCurrentFollowings []
      \<lparr>watched_accounts = [\<lparr>ID = 1, Username = ''a'', UserID = ''10''\<rparr>],
       following = [(1, ''u1''), (1, ''u2''), (1, ''u3'')], follow_events = []\<rparr>
      (ID \<lparr>ID = 1, Username = ''a'', UserID = ''10''\<rparr>)
     = (Inr [''u1'', ''u2'', ''u3''], [])"
    by (simp add: store_eval)
  have c: "detect_changes [''u1'', ''u2'', ''u3''] [''u2'', ''u3'', ''u4''] = ([''u4''], [''u1''])"
    by (simp add: store_eval)
  from ProcessFollowingChanges_outcomes [OF s g c] s g c show ?thesis by simp
qed

text \<open>
  A driver failure at the Begin of the second transaction: the call reports an error, the
  Follow event for u1 stays recorded and the snapshot is still empty.
\<close>

theorem ProcessFollowingChanges_split_counterexample:
  "ProcessFollowingChanges [False, False, False, False, False, True]
      \<lparr>watched_accounts = [\<lparr>ID = 1, Username = ''a'', UserID = ''10''\<rparr>],
       following = [], follow_events = []\<rparr>
      \<lparr>ID = 1, Username = ''a'', UserID = ''10''\<rparr> [''u1''] 5
     = (Inl (Wrapped ''updating followings'' (Wrapped ''beginning transaction'' SqlFailure)),
        [],
        \<lparr>watched_accounts = [\<lparr>ID = 1, Username = ''a'', UserID = ''10''\<rparr>],
         following = [],
         follow_events = [\<lparr>ev_id = 1, ev_watched_account_id = 1, ev_user_id = ''u1'',
                           ev_event_type = EventTypeFollow, ev_detected_at = 5\<rparr>]\<rparr>)"
  by (simp add: store_eval)

section \<open>Properties of the upstream client\<close>

text \<open>
  C5, as the code has it. When the upstream serves a finite chain of pages ending in a
  page with \<open>NextCursor = 0\<close>, \<open>GetFollowingIDs\<close> returns, in one call, the concatenation
  of the pages' IDs in page order. Its elements are the union of the pages and its length
  is the sum of the page sizes (5000 + 5000 + 1200 = 11200 for such pages); an ID that the
  upstream repeats is kept as often as it was sent. The result has as many different IDs as
  its length when no ID is repeated.
\<close>

theorem GetFollowingIDs_concatenates_pages:
  assumes "serves (following_ids api userID) ''0'' pages"
  shows "GetFollowingIDs api userID = Some (Inr (concat (map IDs pages))) \<and>
         set (concat (map IDs pages)) = (\<Union>p \<in> set pages. set (IDs p)) \<and>
         length (concat (map IDs pages)) = sum_list (map (\<lambda>p. length (IDs p)) pages) \<and>
         (distinct (concat (map IDs pages)) \<longrightarrow>
            card (set (concat (map IDs pages))) = sum_list (map (\<lambda>p. length (IDs p)) pages))"
proof -
  have "GetFollowingIDs api userID = Some (Inr (concat (map IDs pages)))"
    using fetch_pages_serves[OF assms, of "[]"] by (simp add: GetFollowingIDs_def)
  moreover have len: "length (concat (map IDs pages)) = sum_list (map (\<lambda>p. length (IDs p)) pages)"
    by (simp add: length_concat comp_def)
  moreover have "distinct (concat (map IDs pages)) \<longrightarrow>
            card (set (concat (map IDs pages))) = sum_list (map (\<lambda>p. length (IDs p)) pages)"
    using len distinct_card[of "concat (map IDs pages)"] by (simp del: set_concat)
  ultimately show ?thesis by auto
qed

theorem GetFollowingIDs_concatenates_pages_witness:
  "GetFollowingIDs
     \<lparr>by_username = (\<lambda>n. Inl UpstreamFailure),
      following_ids = (\<lambda>u c.
         if c = None then Inr \<lparr>IDs = [''a'', ''b''], NextCursor = 11, NextCursorStr = ''11''\<rparr>
         else if c = Some ''11'' then Inr \<lparr>IDs = [''c''], NextCursor = 22, NextCursorStr = ''22''\<rparr>
         else if c = Some ''22'' then Inr \<lparr>IDs = [''d'', ''e''], NextCursor = 0, NextCursorStr = ''0''\<rparr>
         else Inl UpstreamFailure),
      by_id = (\<lambda>i. Inl UpstreamFailure)\<rparr> ''42''
     = Some (Inr [''a'', ''b'', ''c'', ''d'', ''e'']) \<and>
   card (set [''a'', ''b'', ''c'', ''d'', ''e'']) = 5"
proof -
  let ?api = "\<lparr>by_username = (\<lambda>n. Inl UpstreamFailure),
      following_ids = (\<lambda>u c.
         if c = None then Inr \<lparr>IDs = [''a'', ''b''], NextCursor = 11, NextCursorStr = ''11''\<rparr>
         else if c = Some ''11'' then Inr \<lparr>IDs = [''c''], NextCursor = 22, NextCursorStr = ''22''\<rparr>
         else if c = Some ''22'' then Inr \<lparr>IDs = [''d'', ''e''], NextCursor = 0, NextCursorStr = ''0''\<rparr>
         else Inl UpstreamFailure),
      by_id = (\<lambda>i. Inl UpstreamFailure)\<rparr>"
  have s: "serves (following_ids ?api ''42'') ''0''
             [\<lparr>IDs = [''a'', ''b''], NextCursor = 11, NextCursorStr = ''11''\<rparr>,
              \<lparr>IDs = [''c''], NextCursor = 22, NextCursorStr = ''22''\<rparr>,
              \<lparr>IDs = [''d'', ''e''], NextCursor = 0, NextCursorStr = ''0''\<rparr>]"
    by simp
  from GetFollowingIDs_concatenates_pages [OF s] show ?thesis by simp
qed

text \<open>
  Two pages that share the ID 8: the returned list holds it twice.
\<close>

theorem GetFollowingIDs_keeps_duplicates_counterexample:
  "GetFollowingIDs
     \<lparr>by_username = (\<lambda>n. Inl UpstreamFailure),
      following_ids = (\<lambda>u c.
         if c = None then Inr \<lparr>IDs = [''7'', ''8''], NextCursor = 11, NextCursorStr = ''11''\<rparr>
         else Inr \<lparr>IDs = [''8'', ''9''], NextCursor = 0, NextCursorStr = ''0''\<rparr>),
      by_id = (\<lambda>i. Inl UpstreamFailure)\<rparr> ''42''
     = Some (Inr [''7'', ''8'', ''8'', ''9'']) \<and>
   \<not> distinct [''7'', ''8'', ''8'', ''9'']"
proof -
  let ?api = "\<lparr>by_username = (\<lambda>n. Inl UpstreamFailure),
      following_ids = (\<lambda>u c.
         if c = None then Inr \<lparr>IDs = [''7'', ''8''], NextCursor = 11, NextCursorStr = ''11''\<rparr>
         else Inr \<lparr>IDs = [''8'', ''9''], NextCursor = 0, NextCursorStr = ''0''\<rparr>),
      by_id = (\<lambda>i. Inl UpstreamFailure)\<rparr>"
  have s: "serves (following_ids ?api ''42'') ''0''
             [\<lparr>IDs = [''7'', ''8''], NextCursor = 11, NextCursorStr = ''11''\<rparr>,
              \<lparr>IDs = [''8'', ''9''], NextCursor = 0, NextCursorStr = ''0''\<rparr>]"
    by simp
  from fetch_pages_serves [OF s, of "[]"] show ?thesis by (simp add: GetFollowingIDs_def)
qed

section \<open>Properties of the add-account flow\<close>

text \<open>
  C3, as the code has it. Whatever \<open>handleAddAccount\<close> returns, it has recorded no event
  and posted no notification. When it ends without an error, the new account is the last
  row of the accounts table and its snapshot holds exactly the fetched IDs: the initial
  following set is seeded into the snapshot directly, not as a batch of Follow events.
\<close>

theorem handleAddAccount_seeds_snapshot_only:
  assumes "handleAddAccount w username m = Some (msg, m1)"
  shows "follow_events (db m1) = follow_events (db m) \<and> posted m1 = posted m \<and>
         (msg = None \<longrightarrow>
            (\<exists>account ids.
               GetFollowingIDs (upstream w) (UserID account) = Some (Inr ids) \<and>
               watched_accounts (db m1) = watched_accounts (db m) @ [account] \<and>
               {i. (ID account, i) \<in> set (following (db m1))} = set ids))"
proof (cases "GetUser (upstream w) (TrimPrefix username ''@'')")
  case (Inl e)
  with assms show ?thesis by (auto simp: handleAddAccount_def)
next
  case user: (Inr user)
  obtain r1 fs1 d1 where add:
    "AddWatchedAccount (sql_faults m) (db m)
        \<lparr>ID = 0, Username = ScreenName user, UserID = RestID user\<rparr> = (r1, fs1, d1)"
    by (cases "AddWatchedAccount (sql_faults m) (db m)
        \<lparr>ID = 0, Username = ScreenName user, UserID = RestID user\<rparr>") auto
  show ?thesis
  proof (cases r1)
    case (Inl e)
    with add have "d1 = db m" by (simp add: AddWatchedAccount_error)
    with assms user add Inl show ?thesis by (auto simp: handleAddAccount_def)
  next
    case acc: (Inr account)
    from AddWatchedAccount_ok[OF add[unfolded acc]]
    have d1: "d1 = (db m)\<lparr>watched_accounts := watched_accounts (db m) @ [account]\<rparr>" by simp
    show ?thesis
    proof (cases "GetFollowingIDs (upstream w) (UserID account)")
      case None
      with assms user add acc show ?thesis by (auto simp: handleAddAccount_def)
    next
      case (Some f)
      show ?thesis
      proof (cases f)
        case (Inl e)
        with assms user add acc Some d1 show ?thesis
          by (auto simp: handleAddAccount_def)
      next
        case ids: (Inr ids)
        obtain r2 fs2 d2 where st: "StoreFollowings fs1 d1 (ID account) ids = (r2, fs2, d2)"
          by (cases "StoreFollowings fs1 d1 (ID account) ids") auto
        show ?thesis
        proof (cases r2)
          case (Inl e)
          with st have "d2 = d1" by (simp add: StoreFollowings_error)
          with assms user add acc Some ids st Inl d1 show ?thesis
            by (auto simp: handleAddAccount_def)
        next
          case ok: (Inr u)
          note rows = StoreFollowings_rows[OF st[unfolded ok]]
          from assms user add acc Some ids st ok
          have la: "loadAccounts (m\<lparr>sql_faults := fs2, db := d2, mode := ModeNormal\<rparr>) = (msg, m1)"
            by (simp add: handleAddAccount_def)
          from loadAccounts_keeps[OF la] have m1: "db m1 = d2" "posted m1 = posted m" by simp_all
          have "follow_events (db m1) = follow_events (db m)"
            using rows(4) m1 d1 by simp
          moreover have "watched_accounts (db m1) = watched_accounts (db m) @ [account]"
            using rows(3) m1 d1 by simp
          moreover have "{i. (ID account, i) \<in> set (following (db m1))} = set ids"
            using rows(1) m1 by simp
          ultimately show ?thesis using m1 Some ids by blast
        qed
      qed
    qed
  qed
qed

theorem handleAddAccount_seeds_snapshot_only_witness:
  "handleAddAccount
     \<lparr>upstream =
        \<lparr>by_username = (\<lambda>n. if n = ''bob''
            then Inr \<lparr>RestID = ''200'', ScreenName = ''bob'', FriendsCount = 2\<rparr>
            else Inl UpstreamFailure),
         following_ids = (\<lambda>u c. if u = ''200''
            then Inr \<lparr>IDs = [''u1'', ''u2''], NextCursor = 0, NextCursorStr = ''0''\<rparr>
            else Inl UpstreamFailure),
         by_id = (\<lambda>i. Inl UpstreamFailure)\<rparr>,
      http_post = (\<lambda>u b. Inr 200), clock = 5, stamp = ''t''\<rparr>
     ''@bob''
     \<lparr>mode = ModeAddAccount,
      db = \<lparr>watched_accounts = [\<lparr>ID = 1, Username = ''alice'', UserID = ''100''\<rparr>],
            following = [(1, ''u1'')],
            follow_events = [\<lparr>ev_id = 1, ev_watched_account_id = 1, ev_user_id = ''u1'',
                              ev_event_type = EventTypeFollow, ev_detected_at = 3\<rparr>]\<rparr>,
      notifications = Some (NewNotificationManager ''https://d'' ''tok'' ''chat'' True True),
      config = \<lparr>EnableFollowNotifications = True, EnableUnfollowNotifications = False\<rparr>,
      accounts = [\<lparr>ID = 1, Username = ''alice'', UserID = ''100''\<rparr>],
      sql_faults = [], posted = [], logged = []\<rparr>
   = Some (None,
     \<lparr>mode = ModeNormal,
      db = \<lparr>watched_accounts = [\<lparr>ID = 1, Username = ''alice'', UserID = ''100''\<rparr>,
                                 \<lparr>ID = 2, Username = ''bob'', UserID = ''200''\<rparr>],
            following = [(1, ''u1''), (2, ''u1''), (2, ''u2'')],
            follow_events = [\<lparr>ev_id = 1, ev_watched_account_id = 1, ev_user_id = ''u1'',
                              ev_event_type = EventTypeFollow, ev_detected_at = 3\<rparr>]\<rparr>,
      notifications = Some (NewNotificationManager ''https://d'' ''tok'' ''chat'' True True),
      config = \<lparr>EnableFollowNotifications = True, EnableUnfollowNotifications = False\<rparr>,
      accounts = [\<lparr>ID = 1, Username = ''alice'', UserID = ''100''\<rparr>,
                  \<lparr>ID = 2, Username = ''bob'', UserID = ''200''\<rparr>],
      sql_faults = [], posted = [], logged = []\<rparr>)"
proof -
  let ?api = "\<lparr>by_username = (\<lambda>n. if n = ''bob''
            then Inr \<lparr>RestID = ''200'', ScreenName = ''bob'', FriendsCount = 2\<rparr>
            else Inl UpstreamFailure),
         following_ids = (\<lambda>u c. if u = ''200''
            then Inr \<lparr>IDs = [''u1'', ''u2''], NextCursor = 0, NextCursorStr = ''0''\<rparr>
            else Inl UpstreamFailure),
         by_id = (\<lambda>i. Inl UpstreamFailure)\<rparr>"
  let ?w = "\<lparr>upstream = ?api, http_post = (\<lambda>u b. Inr 200), clock = 5, stamp = ''t''\<rparr>"
  let ?m = "\<lparr>mode = ModeAddAccount,
      db = \<lparr>watched_accounts = [\<lparr>ID = 1, Username = ''alice'', UserID = ''100''\<rparr>],
            following = [(1, ''u1'')],
            follow_events = [\<lparr>ev_id = 1, ev_watched_account_id = 1, ev_user_id = ''u1'',
                              ev_event_type = EventTypeFollow, ev_detected_at = 3\<rparr>]\<rparr>,
      notifications = Some (NewNotificationManager ''https://d'' ''tok'' ''chat'' True True),
      config = \<lparr>EnableFollowNotifications = True, EnableUnfollowNotifications = False\<rparr>,
      accounts = [\<lparr>ID = 1, Username = ''alice'', UserID = ''100''\<rparr>],
      sql_faults = [], posted = [], logged = []\<rparr>"
  let ?m1 = "\<lparr>mode = ModeNormal,
      db = \<lparr>watched_accounts = [\<lparr>ID = 1, Username = ''alice'', UserID = ''100''\<rparr>,
                                 \<lparr>ID = 2, Username = ''bob'', UserID = ''200''\<rparr>],
            following = [(1, ''u1''), (2, ''u1''), (2, ''u2'')],
            follow_events = [\<lparr>ev_id = 1, ev_watched_account_id = 1, ev_user_id = ''u1'',
                              ev_event_type = EventTypeFollow, ev_detected_at = 3\<rparr>]\<rparr>,
      notifications = Some (NewNotificationManager ''https://d'' ''tok'' ''chat'' True True),
      config = \<lparr>EnableFollowNotifications = True, EnableUnfollowNotifications = False\<rparr>,
      accounts = [\<lparr>ID = 1, Username = ''alice'', UserID = ''100''\<rparr>,
                  \<lparr>ID = 2, Username = ''bob'', UserID = ''200''\<rparr>],
      sql_faults = [], posted = [], logged = []\<rparr>"
  have "serves (following_ids ?api ''200'') ''0''
          [\<lparr>IDs = [''u1'', ''u2''], NextCursor = 0, NextCursorStr = ''0''\<rparr>]"
    by simp
  from fetch_pages_serves [OF this, of "[]"]
  have gf: "GetFollowingIDs ?api ''200'' = Some (Inr [''u1'', ''u2''])"
    by (simp add: GetFollowingIDs_def)
  have run: "handleAddAccount ?w ''@bob'' ?m = Some (None, ?m1)"
    by (simp add: handleAddAccount_def TrimPrefix_def GetUser_def gf loadAccounts_def store_eval Let_def)
  from handleAddAccount_seeds_snapshot_only [OF run] run show ?thesis by simp
qed

text \<open>
  A new account whose fetch returns u1 and u2, with both notification channels and both
  flags on: the snapshot holds u1 and u2, the event table stays empty and nothing is posted.
\<close>

theorem handleAddAccount_no_events_counterexample:
  "handleAddAccount
     \<lparr>upstream =
        \<lparr>by_username = (\<lambda>n. if n = ''alice''
            then Inr \<lparr>RestID = ''100'', ScreenName = ''alice'', FriendsCount = 2\<rparr>
            else Inl UpstreamFailure),
         following_ids = (\<lambda>u c. if u = ''100''
            then Inr \<lparr>IDs = [''u1'', ''u2''], NextCursor = 0, NextCursorStr = ''0''\<rparr>
            else Inl UpstreamFailure),
         by_id = (\<lambda>i. Inl UpstreamFailure)\<rparr>,
      http_post = (\<lambda>u b. Inr 200), clock = 5, stamp = ''t''\<rparr>
     ''alice''
     \<lparr>mode = ModeAddAccount,
      db = \<lparr>watched_accounts = [], following = [], follow_events = []\<rparr>,
      notifications = Some (NewNotificationManager ''https://d'' ''tok'' ''chat'' True True),
      config = \<lparr>EnableFollowNotifications = True, EnableUnfollowNotifications = True\<rparr>,
      accounts = [], sql_faults = [], posted = [], logged = []\<rparr>
   = Some (None,
     \<lparr>mode = ModeNormal,
      db = \<lparr>watched_accounts = [\<lparr>ID = 1, Username = ''alice'', UserID = ''100''\<rparr>],
            following = [(1, ''u1''), (1, ''u2'')],
            follow_events = []\<rparr>,
      notifications = Some (NewNotificationManager ''https://d'' ''tok'' ''chat'' True True),
      config = \<lparr>EnableFollowNotifications = True, EnableUnfollowNotifications = True\<rparr>,
      accounts = [\<lparr>ID = 1, Username = ''alice'', UserID = ''100''\<rparr>],
      sql_faults = [], posted = [], logged = []\<rparr>)"
proof -
  let ?api = "\<lparr>by_username = (\<lambda>n. if n = ''alice''
            then Inr \<lparr>RestID = ''100'', ScreenName = ''alice'', FriendsCount = 2\<rparr>
            else Inl UpstreamFailure),
         following_ids = (\<lambda>u c. if u = ''100''
            then Inr \<lparr>IDs = [''u1'', ''u2''], NextCursor = 0, NextCursorStr = ''0''\<rparr>
            else Inl UpstreamFailure),
         by_id = (\<lambda>i. Inl UpstreamFailure)\<rparr>"
  have "serves (following_ids ?api ''100'') ''0''
          [\<lparr>IDs = [''u1'', ''u2''], NextCursor = 0, NextCursorStr = ''0''\<rparr>]"
    by simp
  from fetch_pages_serves [OF this, of "[]"]
  have gf: "GetFollowingIDs ?api ''100'' = Some (Inr [''u1'', ''u2''])"
    by (simp add: GetFollowingIDs_def)
  show ?thesis
    by (simp add: handleAddAccount_def TrimPrefix_def GetUser_def gf loadAccounts_def store_eval Let_def)
qed

section \<open>Properties of notification dispatch\<close>

text \<open>
  C9. \<open>NotifyNewFollows\<close> and \<open>NotifyUnfollows\<close> post once to each channel that is enabled
  and configured, Discord first, then Telegram, each with its own message built from the
  account, the IDs and the upstream profiles. Which posts are made does not depend on how
  any endpoint answers (\<open>http_post\<close>), so a failed Discord send does not keep the Telegram
  send from being attempted; and the outcome of the sends reaches the caller's model only
  through the log: the store, the failure schedule and the posts are the same.
\<close>

theorem notification_channels_independent:
  "fst (NotifyNewFollows w nm account follows) =
     (if enableDiscord nm \<and> discord nm \<noteq> None \<and> URL (the (discord nm)) \<noteq> []
      then [(URL (the (discord nm)), DiscordBody (follows_payload w account follows))] else [])
     @ (if enableTelegram nm \<and> telegram nm \<noteq> None \<and> botToken (the (telegram nm)) \<noteq> []
            \<and> chatID (the (telegram nm)) \<noteq> []
        then [(telegram_url (the (telegram nm)),
               TelegramBody (chatID (the (telegram nm))) (follows_text w account follows))]
        else []) \<and>
   fst (NotifyUnfollows w nm account unfollows) =
     (if enableDiscord nm \<and> discord nm \<noteq> None \<and> URL (the (discord nm)) \<noteq> []
      then [(URL (the (discord nm)), DiscordBody (unfollows_payload w account unfollows))] else [])
     @ (if enableTelegram nm \<and> telegram nm \<noteq> None \<and> botToken (the (telegram nm)) \<noteq> []
            \<and> chatID (the (telegram nm)) \<noteq> []
        then [(telegram_url (the (telegram nm)),
               TelegramBody (chatID (the (telegram nm))) (unfollows_text w account unfollows))]
        else []) \<and>
   fst (NotifyNewFollows (w\<lparr>http_post := h\<rparr>) nm account follows)
     = fst (NotifyNewFollows w nm account follows) \<and>
   fst (NotifyUnfollows (w\<lparr>http_post := h\<rparr>) nm account unfollows)
     = fst (NotifyUnfollows w nm account unfollows) \<and>
   dispatch (w\<lparr>http_post := h\<rparr>) account follows unfollows m
     = (dispatch w account follows unfollows m)
         \<lparr>logged := logged (dispatch (w\<lparr>http_post := h\<rparr>) account follows unfollows m)\<rparr>"
proof -
  have a: "fst (NotifyNewFollows (w\<lparr>http_post := h\<rparr>) nm account follows)
     = fst (NotifyNewFollows w nm account follows)" for nm
    by (simp add: NotifyNewFollows_posts payload_ignores_http_post)
  have b: "fst (NotifyUnfollows (w\<lparr>http_post := h\<rparr>) nm account unfollows)
     = fst (NotifyUnfollows w nm account unfollows)" for nm
    by (simp add: NotifyUnfollows_posts payload_ignores_http_post)
  have c: "dispatch (w\<lparr>http_post := h\<rparr>) account follows unfollows m
     = (dispatch w account follows unfollows m)
         \<lparr>logged := logged (dispatch (w\<lparr>http_post := h\<rparr>) account follows unfollows m)\<rparr>"
    by (rule Model.equality)
       (simp_all add: dispatch_fields dispatch_posted a b split: option.splits)
  show ?thesis
    using NotifyNewFollows_posts[of w nm account follows]
      NotifyUnfollows_posts[of w nm account unfollows] a[of nm] b[of nm] c
    by simp
qed

theorem notification_channels_independent_witness:
  "NotifyNewFollows
     \<lparr>upstream = \<lparr>by_username = (\<lambda>n. Inl UpstreamFailure),
                  following_ids = (\<lambda>u c. Inl UpstreamFailure),
                  by_id = (\<lambda>i. Inl UpstreamFailure)\<rparr>,
      http_post = (\<lambda>u b. case b of DiscordBody p \<Rightarrow> Inl SendFailure
                                   | TelegramBody c t \<Rightarrow> Inr 200),
      clock = 5, stamp = ''t''\<rparr>
     (NewNotificationManager ''https://d'' ''tok'' ''chat'' True True)
     \<lparr>ID = 1, Username = ''alice'', UserID = ''100''\<rparr> [''u1'']
   = ([(''https://d'',
        DiscordBody (follows_payload
          \<lparr>upstream = \<lparr>by_username = (\<lambda>n. Inl UpstreamFailure),
                       following_ids = (\<lambda>u c. Inl UpstreamFailure),
                       by_id = (\<lambda>i. Inl UpstreamFailure)\<rparr>,
           http_post = (\<lambda>u b. Inr 200), clock = 5, stamp = ''t''\<rparr>
          \<lparr>ID = 1, Username = ''alice'', UserID = ''100''\<rparr> [''u1''])),
       (''https://api.telegram.org/bottok/sendMessage'',
        TelegramBody ''chat'' (follows_text
          \<lparr>upstream = \<lparr>by_username = (\<lambda>n. Inl UpstreamFailure),
                       following_ids = (\<lambda>u c. Inl UpstreamFailure),
                       by_id = (\<lambda>i. Inl UpstreamFailure)\<rparr>,
           http_post = (\<lambda>u b. Inr 200), clock = 5, stamp = ''t''\<rparr>
          \<lparr>ID = 1, Username = ''alice'', UserID = ''100''\<rparr> [''u1'']))],
      [Wrapped ''sending webhook'' SendFailure])"
proof -
  let ?w = "\<lparr>upstream = \<lparr>by_username = (\<lambda>n. Inl UpstreamFailure),
                       following_ids = (\<lambda>u c. Inl UpstreamFailure),
                       by_id = (\<lambda>i. Inl UpstreamFailure)\<rparr>,
           http_post = (\<lambda>u b. Inr 200), clock = 5, stamp = ''t''\<rparr>"
  let ?h = "(\<lambda>u b. case b of DiscordBody p \<Rightarrow> Inl SendFailure
                                   | TelegramBody c t \<Rightarrow> Inr (200::nat))"
  let ?nm = "NewNotificationManager ''https://d'' ''tok'' ''chat'' True True"
  let ?a = "\<lparr>ID = 1, Username = ''alice'', UserID = ''100''\<rparr>"
  have errs: "snd (NotifyNewFollows (?w\<lparr>http_post := ?h\<rparr>) ?nm ?a [''u1''])
                = [Wrapped ''sending webhook'' SendFailure]"
    by (simp add: NotifyNewFollows_def on_channel_def NewNotificationManager_def
          Discord_NotifyNewFollows_def Telegram_NotifyNewFollows_def send_def sendMessage_def
          split: prod.splits)
  from notification_channels_independent [of ?w ?nm ?a "[''u1'']" "[]" ?h] errs
  show ?thesis
    by (simp add: NewNotificationManager_def telegram_url_def prod_eq_iff)
qed

section \<open>Properties of the reconciliation cycle\<close>

text \<open>
  C6. When the fetched IDs of an account are exactly its stored snapshot, the check of that
  account records no event, leaves the snapshot and the rest of the store as they are and
  posts no notification, whatever the driver's failure schedule. In particular, with no
  driver failure, after one check of an account has stored the fetched IDs, a second check
  with the same fetched IDs changes nothing and posts nothing.
\<close>

theorem unchanged_account_is_skipped:
  assumes fetch: "GetFollowingIDs (upstream w) (UserID a) = Some (Inr latest)"
  shows "(set latest = {i. (ID a, i) \<in> set (following (db m))} \<longrightarrow>
            (\<exists>m1. check_account w a m = Some m1 \<and> db m1 = db m \<and> posted m1 = posted m)) \<and>
         (sql_faults m = [] \<longrightarrow>
            (\<exists>m1 m2. check_account w a m = Some m1 \<and>
                      {i. (ID a, i) \<in> set (following (db m1))} = set latest \<and>
                      check_account w a m1 = Some m2 \<and>
                      db m2 = db m1 \<and> posted m2 = posted m1))"
proof (intro conjI impI)
  assume "set latest = {i. (ID a, i) \<in> set (following (db m))}"
  with fetch show "\<exists>m1. check_account w a m = Some m1 \<and> db m1 = db m \<and> posted m1 = posted m"
    by (rule check_account_unchanged)
next
  assume nf: "sql_faults m = []"
  obtain current where cur: "GetCurrentFollowings [] (db m) (ID a) = (Inr current, [])"
    by (simp add: GetCurrentFollowings_no_fault)
  obtain added removed where diff: "detect_changes current latest = (added, removed)"
    by (cases "detect_changes current latest") auto
  from check_account_nofault[OF nf fetch cur diff] obtain d2 where
    step: "check_account w a m = Some (dispatch w a added removed (m\<lparr>db := d2\<rparr>))" and
    snap: "{i. (ID a, i) \<in> set (following d2)} = set latest"
    by blast
  let ?m1 = "dispatch w a added removed (m\<lparr>db := d2\<rparr>)"
  have db1: "db ?m1 = d2" by (simp add: dispatch_fields)
  from check_account_unchanged[OF fetch, of ?m1] snap db1
  obtain m2 where "check_account w a ?m1 = Some m2" "db m2 = db ?m1" "posted m2 = posted ?m1"
    by auto
  with step snap db1
  show "\<exists>m1 m2. check_account w a m = Some m1 \<and>
                      {i. (ID a, i) \<in> set (following (db m1))} = set latest \<and>
                      check_account w a m1 = Some m2 \<and>
                      db m2 = db m1 \<and> posted m2 = posted m1"
    by auto
qed

theorem unchanged_account_is_skipped_witness:
  "(let w = \<lparr>upstream =
               \<lparr>by_username = (\<lambda>n. Inl UpstreamFailure),
                following_ids = (\<lambda>u c.
                  Inr \<lparr>IDs = [''u2'', ''u3''], NextCursor = 0, NextCursorStr = ''0''\<rparr>),
                by_id = (\<lambda>i. Inl UpstreamFailure)\<rparr>,
             http_post = (\<lambda>u b. Inr 200), clock = 5, stamp = ''t''\<rparr>;
        a = \<lparr>ID = 1, Username = ''alice'', UserID = ''100''\<rparr>;
        nm = NewNotificationManager [] ''tok'' ''chat'' False True;
        cfg = \<lparr>EnableFollowNotifications = True, EnableUnfollowNotifications = True\<rparr>;
        same = \<lparr>mode = ModeNormal,
                db = \<lparr>watched_accounts = [a], following = [(1, ''u3''), (1, ''u2'')],
                      follow_events = []\<rparr>,
                notifications = Some nm, config = cfg, accounts = [a],
                sql_faults = [True], posted = [], logged = []\<rparr>;
        other = \<lparr>mode = ModeNormal,
                 db = \<lparr>watched_accounts = [a], following = [(1, ''u1''), (1, ''u2'')],
                       follow_events = []\<rparr>,
                 notifications = Some nm, config = cfg, accounts = [a],
                 sql_faults = [], posted = [], logged = []\<rparr>
    in GetFollowingIDs (upstream w) (UserID a) = Some (Inr [''u2'', ''u3'']) \<and>
       set [''u2'', ''u3''] = {i. (ID a, i) \<in> set (following (db same))} \<and>
       (\<exists>m1. check_account w a same = Some m1 \<and> db m1 = db same \<and> posted m1 = posted same) \<and>
       sql_faults other = [] \<and>
       (\<exists>m1 m2. check_account w a other = Some m1 \<and>
                 {i. (ID a, i) \<in> set (following (db m1))} = set [''u2'', ''u3''] \<and>
                 check_account w a m1 = Some m2 \<and> db m2 = db m1 \<and> posted m2 = posted m1))"
proof -
  let ?api = "\<lparr>by_username = (\<lambda>n. Inl UpstreamFailure),
                following_ids = (\<lambda>u c.
                  Inr \<lparr>IDs = [''u2'', ''u3''], NextCursor = 0, NextCursorStr = ''0''\<rparr>),
                by_id = (\<lambda>i. Inl UpstreamFailure)\<rparr>"
  let ?w = "\<lparr>upstream = ?api, http_post = (\<lambda>u b. Inr 200), clock = 5, stamp = ''t''\<rparr>"
  let ?a = "\<lparr>ID = 1, Username = ''alice'', UserID = ''100''\<rparr>"
  let ?nm = "NewNotificationManager [] ''tok'' ''chat'' False True"
  let ?cfg = "\<lparr>EnableFollowNotifications = True, EnableUnfollowNotifications = True\<rparr>"
  let ?same = "\<lparr>mode = ModeNormal,
                db = \<lparr>watched_accounts = [?a], following = [(1, ''u3''), (1, ''u2'')],
                      follow_events = []\<rparr>,
                notifications = Some ?nm, config = ?cfg, accounts = [?a],
                sql_faults = [True], posted = [], logged = []\<rparr>"
  let ?other = "\<lparr>mode = ModeNormal,
                 db = \<lparr>watched_accounts = [?a], following = [(1, ''u1''), (1, ''u2'')],
                       follow_events = []\<rparr>,
                 notifications = Some ?nm, config = ?cfg, accounts = [?a],
                 sql_faults = [], posted = [], logged = []\<rparr>"
  have "serves (following_ids ?api ''100'') ''0''
          [\<lparr>IDs = [''u2'', ''u3''], NextCursor = 0, NextCursorStr = ''0''\<rparr>]"
    by simp
  from fetch_pages_serves [OF this, of "[]"]
  have gf: "GetFollowingIDs (upstream ?w) (UserID ?a) = Some (Inr [''u2'', ''u3''])"
    by (simp add: GetFollowingIDs_def)
  have eq: "set [''u2'', ''u3''] = {i. (ID ?a, i) \<in> set (following (db ?same))}"
    by auto
  have nf: "sql_faults ?other = []" by simp
  from unchanged_account_is_skipped [OF gf, of ?same] eq
  have one: "\<exists>m1. check_account ?w ?a ?same = Some m1 \<and> db m1 = db ?same \<and> posted m1 = posted ?same"
    by blast
  from unchanged_account_is_skipped [OF gf, of ?other] nf
  have two: "\<exists>m1 m2. check_account ?w ?a ?other = Some m1 \<and>
                 {i. (ID ?a, i) \<in> set (following (db m1))} = set [''u2'', ''u3''] \<and>
                 check_account ?w ?a m1 = Some m2 \<and> db m2 = db m1 \<and> posted m2 = posted m1"
    by blast
  show ?thesis
    unfolding Let_def using gf eq one nf two by (intro conjI)
qed

text \<open>
  C8. In the loop over the accounts, whatever happened while account X was checked (its
  fetch failed, or a database call of its update failed, or it went through), the check of
  the next account Y runs. If no database call fails for Y, then after the loop Y's snapshot
  is exactly the set fetched for Y, the events of Y's delta against its snapshot from before
  the cycle are appended to the event table, and the notifications for that delta are
  posted, each direction gated by its flag and by being non-empty.
\<close>

theorem failing_account_does_not_stop_the_next:
  assumes ids: "ID X \<noteq> ID Y"
      and stepX: "check_account w X m = Some m1"
      and nf: "sql_faults m1 = []"
      and fetch: "GetFollowingIDs (upstream w) (UserID Y) = Some (Inr latest)"
      and cur: "GetCurrentFollowings [] (db m) (ID Y) = (Inr current, [])"
      and diff: "detect_changes current latest = (added, removed)"
  shows "\<exists>m2. check_loop w [X, Y] m = Some m2 \<and>
           {i. (ID Y, i) \<in> set (following (db m2))} = set latest \<and>
           (\<exists>new. follow_events (db m2) = follow_events (db m1) @ new \<and>
              map (\<lambda>e. (ev_watched_account_id e, ev_user_id e, ev_event_type e, ev_detected_at e)) new
                = map (\<lambda>i. (ID Y, i, EventTypeFollow, clock w)) added
                  @ map (\<lambda>i. (ID Y, i, EventTypeUnfollow, clock w)) removed) \<and>
           posted m2 = posted m1 @
             (case notifications m1 of
                None \<Rightarrow> []
              | Some nm \<Rightarrow>
                  (if EnableFollowNotifications (config m1) \<and> added \<noteq> []
                   then fst (NotifyNewFollows w nm Y added) else [])
                  @ (if EnableUnfollowNotifications (config m1) \<and> removed \<noteq> []
                     then fst (NotifyUnfollows w nm Y removed) else []))"
proof -
  have "filter (\<lambda>r. fst r = ID Y) (following (db m1)) = filter (\<lambda>r. fst r = ID Y) (following (db m))"
    using check_account_frame[OF stepX, of "\<lambda>r. fst r = ID Y"] ids by simp
  with cur have cur1: "GetCurrentFollowings [] (db m1) (ID Y) = (Inr current, [])"
    by (simp add: GetCurrentFollowings_no_fault)
  from check_account_nofault[OF nf fetch cur1 diff] obtain d2 where
    step: "check_account w Y m1 = Some (dispatch w Y added removed (m1\<lparr>db := d2\<rparr>))" and
    snap: "{i. (ID Y, i) \<in> set (following d2)} = set latest" and
    ev: "\<exists>new. follow_events d2 = follow_events (db m1) @ new \<and>
              map (\<lambda>e. (ev_watched_account_id e, ev_user_id e, ev_event_type e, ev_detected_at e)) new
                = map (\<lambda>i. (ID Y, i, EventTypeFollow, clock w)) added
                  @ map (\<lambda>i. (ID Y, i, EventTypeUnfollow, clock w)) removed"
    by blast
  let ?m2 = "dispatch w Y added removed (m1\<lparr>db := d2\<rparr>)"
  have loop: "check_loop w [X, Y] m = Some ?m2" by (simp add: stepX step)
  have db2: "db ?m2 = d2" by (simp add: dispatch_fields)
  have post: "posted ?m2 = posted m1 @
             (case notifications m1 of
                None \<Rightarrow> []
              | Some nm \<Rightarrow>
                  (if EnableFollowNotifications (config m1) \<and> added \<noteq> []
                   then fst (NotifyNewFollows w nm Y added) else [])
                  @ (if EnableUnfollowNotifications (config m1) \<and> removed \<noteq> []
                     then fst (NotifyUnfollows w nm Y removed) else []))"
    by (simp add: dispatch_posted split: option.splits)
  show ?thesis
    using loop snap ev post db2 by (intro exI[of _ ?m2]) simp
qed

theorem failing_account_does_not_stop_the_next_witness:
  "(let w = \<lparr>upstream =
               \<lparr>by_username = (\<lambda>n. Inl UpstreamFailure),
                following_ids = (\<lambda>u c.
                  if u = ''200''
                  then Inr \<lparr>IDs = [''u2'', ''u3'', ''u4''], NextCursor = 0, NextCursorStr = ''0''\<rparr>
                  else if u = ''300''
                  then Inr \<lparr>IDs = [''v1''], NextCursor = 0, NextCursorStr = ''0''\<rparr>
                  else Inl UpstreamFailure),
                by_id = (\<lambda>i. Inl UpstreamFailure)\<rparr>,
             http_post = (\<lambda>u b. Inr 200), clock = 5, stamp = ''t''\<rparr>;
        X = \<lparr>ID = 1, Username = ''xavier'', UserID = ''100''\<rparr>;
        Y = \<lparr>ID = 2, Username = ''yvonne'', UserID = ''200''\<rparr>;
        Z = \<lparr>ID = 3, Username = ''zoe'', UserID = ''300''\<rparr>;
        nm = NewNotificationManager [] ''tok'' ''chat'' False True;
        cfg = \<lparr>EnableFollowNotifications = True, EnableUnfollowNotifications = True\<rparr>;
        d = \<lparr>watched_accounts = [X, Y, Z],
             following = [(1, ''a''), (2, ''u1''), (2, ''u2''), (2, ''u3'')],
             follow_events = []\<rparr>;
        m = \<lparr>mode = ModeNormal, db = d, notifications = Some nm, config = cfg,
             accounts = [X, Y, Z], sql_faults = [], posted = [], logged = []\<rparr>;
        m' = \<lparr>mode = ModeNormal, db = d, notifications = Some nm, config = cfg,
              accounts = [X, Y, Z], sql_faults = [False, True], posted = [], logged = []\<rparr>
    in check_account w X m = Some (m\<lparr>logged := [Wrapped ''sending request'' UpstreamFailure]\<rparr>) \<and>
       check_account w Z m'
         = Some (m\<lparr>logged := [Wrapped ''beginning transaction'' SqlFailure]\<rparr>) \<and>
       GetFollowingIDs (upstream w) (UserID Y) = Some (Inr [''u2'', ''u3'', ''u4'']) \<and>
       detect_changes [''u1'', ''u2'', ''u3''] [''u2'', ''u3'', ''u4''] = ([''u4''], [''u1'']) \<and>
       (\<exists>m2. check_loop w [X, Y] m = Some m2 \<and>
             {i. (ID Y, i) \<in> set (following (db m2))} = set [''u2'', ''u3'', ''u4''] \<and>
             posted m2 = fst (NotifyNewFollows w nm Y [''u4''])
                         @ fst (NotifyUnfollows w nm Y [''u1''])) \<and>
       (\<exists>m2. check_loop w [Z, Y] m' = Some m2 \<and>
             {i. (ID Y, i) \<in> set (following (db m2))} = set [''u2'', ''u3'', ''u4''] \<and>
             posted m2 = fst (NotifyNewFollows w nm Y [''u4''])
                         @ fst (NotifyUnfollows w nm Y [''u1''])))"
proof -
  let ?api = "\<lparr>by_username = (\<lambda>n. Inl UpstreamFailure),
                following_ids = (\<lambda>u c.
                  if u = ''200''
                  then Inr \<lparr>IDs = [''u2'', ''u3'', ''u4''], NextCursor = 0, NextCursorStr = ''0''\<rparr>
                  else if u = ''300''
                  then Inr \<lparr>IDs = [''v1''], NextCursor = 0, NextCursorStr = ''0''\<rparr>
                  else Inl UpstreamFailure),
                by_id = (\<lambda>i. Inl UpstreamFailure)\<rparr>"
  let ?w = "\<lparr>upstream = ?api, http_post = (\<lambda>u b. Inr 200), clock = 5, stamp = ''t''\<rparr>"
  let ?X = "\<lparr>ID = 1, Username = ''xavier'', UserID = ''100''\<rparr>"
  let ?Y = "\<lparr>ID = 2, Username = ''yvonne'', UserID = ''200''\<rparr>"
  let ?Z = "\<lparr>ID = 3, Username = ''zoe'', UserID = ''300''\<rparr>"
  let ?nm = "NewNotificationManager [] ''tok'' ''chat'' False True"
  let ?cfg = "\<lparr>EnableFollowNotifications = True, EnableUnfollowNotifications = True\<rparr>"
  let ?d = "\<lparr>watched_accounts = [?X, ?Y, ?Z],
             following = [(1, ''a''), (2, ''u1''), (2, ''u2''), (2, ''u3'')],
             follow_events = []\<rparr>"
  let ?m = "\<lparr>mode = ModeNormal, db = ?d, notifications = Some ?nm, config = ?cfg,
             accounts = [?X, ?Y, ?Z], sql_faults = [], posted = [], logged = []\<rparr>"
  let ?m' = "\<lparr>mode = ModeNormal, db = ?d, notifications = Some ?nm, config = ?cfg,
              accounts = [?X, ?Y, ?Z], sql_faults = [False, True], posted = [], logged = []\<rparr>"
  let ?mX = "?m\<lparr>logged := [Wrapped ''sending request'' UpstreamFailure]\<rparr>"
  let ?mZ = "?m\<lparr>logged := [Wrapped ''beginning transaction'' SqlFailure]\<rparr>"
  have "fetch_pages (following_ids ?api ''100'') [] ''0''
          = Some (Inl (Wrapped ''sending request'' UpstreamFailure))"
    by (rule fetch_pages_error) simp
  then have gx: "GetFollowingIDs ?api ''100'' = Some (Inl (Wrapped ''sending request'' UpstreamFailure))"
    by (simp add: GetFollowingIDs_def)
  have "serves (following_ids ?api ''200'') ''0''
          [\<lparr>IDs = [''u2'', ''u3'', ''u4''], NextCursor = 0, NextCursorStr = ''0''\<rparr>]"
    by simp
  from fetch_pages_serves [OF this, of "[]"]
  have gy: "GetFollowingIDs ?api ''200'' = Some (Inr [''u2'', ''u3'', ''u4''])"
    by (simp add: GetFollowingIDs_def)
  have "serves (following_ids ?api ''300'') ''0''
          [\<lparr>IDs = [''v1''], NextCursor = 0, NextCursorStr = ''0''\<rparr>]"
    by simp
  from fetch_pages_serves [OF this, of "[]"]
  have gz: "GetFollowingIDs ?api ''300'' = Some (Inr [''v1''])"
    by (simp add: GetFollowingIDs_def)
  have sx: "check_account ?w ?X ?m = Some ?mX"
    by (simp add: check_account_def gx)
  have sz: "check_account ?w ?Z ?m' = Some ?mZ"
    by (simp add: check_account_def gz store_eval)
  have fy: "GetFollowingIDs (upstream ?w) (UserID ?Y) = Some (Inr [''u2'', ''u3'', ''u4''])"
    by (simp add: gy)
  have cur: "GetCurrentFollowings [] (db ?m) (ID ?Y) = (Inr [''u1'', ''u2'', ''u3''], [])"
    by (simp add: store_eval)
  have cur': "GetCurrentFollowings [] (db ?m') (ID ?Y) = (Inr [''u1'', ''u2'', ''u3''], [])"
    by (simp add: store_eval)
  have dc: "detect_changes [''u1'', ''u2'', ''u3''] [''u2'', ''u3'', ''u4''] = ([''u4''], [''u1''])"
    by (simp add: store_eval)
  have ne: "ID ?X \<noteq> ID ?Y" "ID ?Z \<noteq> ID ?Y" by simp_all
  have nfX: "sql_faults ?mX = []" and nfZ: "sql_faults ?mZ = []" by simp_all
  from failing_account_does_not_stop_the_next [OF ne(1) sx nfX fy cur dc]
  have one: "\<exists>m2. check_loop ?w [?X, ?Y] ?m = Some m2 \<and>
             {i. (ID ?Y, i) \<in> set (following (db m2))} = set [''u2'', ''u3'', ''u4''] \<and>
             posted m2 = fst (NotifyNewFollows ?w ?nm ?Y [''u4''])
                         @ fst (NotifyUnfollows ?w ?nm ?Y [''u1''])"
    by auto
  from failing_account_does_not_stop_the_next [OF ne(2) sz nfZ fy cur' dc]
  have two: "\<exists>m2. check_loop ?w [?Z, ?Y] ?m' = Some m2 \<and>
             {i. (ID ?Y, i) \<in> set (following (db m2))} = set [''u2'', ''u3'', ''u4''] \<and>
             posted m2 = fst (NotifyNewFollows ?w ?nm ?Y [''u4''])
                         @ fst (NotifyUnfollows ?w ?nm ?Y [''u1''])"
    by auto
  show ?thesis
    unfolding Let_def using sx sz fy dc one two by (intro conjI)
qed

end
